theory Spec2Isabelle
  imports Complex_Main "HOL-Library.AList"
begin

section \<open>Data model of Model/CalculateDVHs.py\<close>

text \<open>
  The exceptions the module can end in. \<open>IndexError\<close> is what numpy raises for
  \<open>a[-1]\<close> on an array of length 0, \<open>ValueError\<close> is what the pandas DataFrame
  constructor raises when the header and the data disagree in width, \<open>KeyError\<close> is
  what \<open>set_index\<close> raises for a column the frame does not have, \<open>AttributeError\<close>
  is what \<open>dvh.counts\<close> raises on a value that has no such attribute.
  \<open>MalformedHistogramError\<close> is the name the specification uses; no statement of the
  source raises it.
\<close>

datatype error = IndexError | ValueError | KeyError | AttributeError | MalformedHistogramError

text \<open>
  A Python dict keeps its keys in insertion order and holds each key once.  It is an
  association list; \<open>d[k] = v\<close> is \<open>AList.update k v d\<close>, which replaces the value in
  place when the key is present and appends the pair otherwise.
\<close>

type_synonym ('k, 'v) dict = "('k \<times> 'v) list"

text \<open>
  A histogram as the normaliser reads it: an object with the attributes
  \<open>dvh.bincenters\<close> and \<open>dvh.counts\<close>.  Doses and volumes are floats in the source;
  they are reals here, so arithmetic is exact.
\<close>

record hist =
  bincenters :: "real list"
  counts :: "real list"

text \<open>
  What the normaliser stores per ROI: \<open>res[roi]\<close>, a plain dict with the two keys
  \<open>'bincenters'\<close> and \<open>'counts'\<close>.  A dict has no attribute \<open>bincenters\<close> or
  \<open>counts\<close>, so this is another type than the histogram the function reads.
\<close>

record res_roi =
  res_bincenters :: "real list"
  res_counts :: "real list"

text \<open>
  The DVH object of dicompylercore, with the attributes this module reads:
  \<open>dvh.name\<close>, \<open>dvh.volume\<close> and \<open>dvh.relative_volume.counts\<close>.
\<close>

record DVH = hist +
  name :: string
  volume :: real
  relative_volume_counts :: "real list"

section \<open>converge_to_zero_dvh\<close>

text \<open>\<open>a[-1]\<close>: the last element, IndexError on an empty array.\<close>

definition getitem_last :: "'a list \<Rightarrow> error + 'a" where
  "getitem_last a = (if a = [] then Inl IndexError else Inr (last a))"

text \<open>\<open>zeros = np.zeros(3)\<close>\<close>

definition zeros :: "real list" where
  "zeros = replicate 3 0"

text \<open>
  The inner loop, \<open>for i in range(3): tmp_bincenters.append(dvh.bincenters[-1]+i)\<close>,
  run over the list of the values of \<open>i\<close> still to come.
\<close>

fun tmp_bincenters_loop :: "real list \<Rightarrow> nat list \<Rightarrow> real list \<Rightarrow> error + real list" where
  "tmp_bincenters_loop bc [] tmp = Inr tmp"
| "tmp_bincenters_loop bc (i # rest) tmp =
     (case getitem_last bc of
        Inl e \<Rightarrow> Inl e
      | Inr b \<Rightarrow> tmp_bincenters_loop bc rest (tmp @ [b + real i]))"

text \<open>
  The body of \<open>for roi in dict_dvh\<close> up to the two assignments into \<open>res[roi]\<close>:
  the pair of arrays stored for one histogram.
\<close>

definition converge_body :: "'a hist_scheme \<Rightarrow> error + res_roi" where
  "converge_body dvh =
     (case getitem_last (counts dvh) of
        Inl e \<Rightarrow> Inl e
      | Inr c \<Rightarrow>
          if c \<noteq> 0 then
            (case tmp_bincenters_loop (bincenters dvh) [0..<3] [] of
               Inl e \<Rightarrow> Inl e
             | Inr tmp \<Rightarrow>
                 Inr \<lparr>res_bincenters = bincenters dvh @ tmp, res_counts = counts dvh @ zeros\<rparr>)
          else Inr \<lparr>res_bincenters = bincenters dvh, res_counts = counts dvh\<rparr>)"

text \<open>
  The outer loop with its accumulator \<open>res\<close>.  The source iterates over the keys and
  reads \<open>dict_dvh[roi]\<close>; on a dict that is the iteration over its items.
\<close>

fun converge_loop ::
  "('k, 'a hist_scheme) dict \<Rightarrow> ('k, res_roi) dict \<Rightarrow> error + ('k, res_roi) dict" where
  "converge_loop [] res = Inr res"
| "converge_loop ((roi, dvh) # rest) res =
     (case converge_body dvh of
        Inl e \<Rightarrow> Inl e
      | Inr h \<Rightarrow> converge_loop rest (AList.update roi h res))"

definition converge_to_zero_dvh :: "('k, 'a hist_scheme) dict \<Rightarrow> error + ('k, res_roi) dict" where
  "converge_to_zero_dvh dict_dvh = converge_loop dict_dvh []"

text \<open>
  Python does not fix what the values of \<open>dict_dvh\<close> are.  The function can be handed
  a dict of histogram objects, or a dict of plain dicts such as the one it returns.
  \<open>dvh.counts\<close> in the test of the \<open>if\<close> is the first attribute read of the body; on
  a plain dict it raises AttributeError.  On histogram objects the body is
  \<open>converge_body\<close>.
\<close>

datatype 'a dvh_value = Object "'a hist_scheme" | PlainDict res_roi

fun converge_loop_dyn ::
  "('k, 'a dvh_value) dict \<Rightarrow> ('k, res_roi) dict \<Rightarrow> error + ('k, res_roi) dict" where
  "converge_loop_dyn [] res = Inr res"
| "converge_loop_dyn ((roi, PlainDict d) # rest) res = Inl AttributeError"
| "converge_loop_dyn ((roi, Object dvh) # rest) res =
     (case converge_body dvh of
        Inl e \<Rightarrow> Inl e
      | Inr h \<Rightarrow> converge_loop_dyn rest (AList.update roi h res))"

definition converge_to_zero_dvh_dyn ::
  "('k, 'a dvh_value) dict \<Rightarrow> error + ('k, res_roi) dict" where
  "converge_to_zero_dvh_dyn dict_dvh = converge_loop_dyn dict_dvh []"

text \<open>
  A dict of histogram objects and a returned dict as values handed to the function, and
  the adapter that makes a histogram object of each returned entry: an object whose
  attributes \<open>bincenters\<close> and \<open>counts\<close> are the entry's two arrays.
\<close>

definition objects :: "('k, 'a hist_scheme) dict \<Rightarrow> ('k, 'a dvh_value) dict" where
  "objects dict_dvh = map (\<lambda>(roi, dvh). (roi, Object dvh)) dict_dvh"

definition plain_dicts :: "('k, res_roi) dict \<Rightarrow> ('k, 'a dvh_value) dict" where
  "plain_dicts res = map (\<lambda>(roi, d). (roi, PlainDict d)) res"

definition as_histograms :: "('k, res_roi) dict \<Rightarrow> ('k, hist) dict" where
  "as_histograms res =
     map (\<lambda>(roi, d). (roi, \<lparr>bincenters = res_bincenters d, counts = res_counts d\<rparr>)) res"


section \<open>converge_to_zero_dvh over an explicit store\<close>

text \<open>
  numpy arrays are objects: \<open>bincenters = dvh.bincenters\<close> copies a reference, while
  \<open>flatten\<close>, \<open>np.array\<close>, \<open>np.zeros\<close> and \<open>np.concatenate\<close> each build a new
  array.  The store holds the arrays, an address is a position in it, and a histogram
  holds the addresses of its two arrays.  The result of a call is paired with the store
  it leaves behind, also when the call raises.
\<close>

type_synonym addr = nat
type_synonym store = "real list list"

record ref_hist =
  bincenters_ref :: addr
  counts_ref :: addr

text \<open>The dict stored per ROI, holding the addresses of the two arrays.\<close>

record res_roi_ref =
  res_bincenters_ref :: addr
  res_counts_ref :: addr

definition deref :: "store \<Rightarrow> addr \<Rightarrow> real list" where
  "deref s p = s ! p"

definition alloc :: "real list \<Rightarrow> store \<Rightarrow> addr \<times> store" where
  "alloc a s = (length s, s @ [a])"

text \<open>\<open>np.array(xs)\<close>, \<open>np.zeros(n)\<close>: a new array with the given contents.\<close>

definition np_array :: "real list \<Rightarrow> store \<Rightarrow> addr \<times> store" where
  "np_array xs s = alloc xs s"

text \<open>\<open>a.flatten()\<close>: a copy of the (one-dimensional) array.\<close>

definition flatten :: "addr \<Rightarrow> store \<Rightarrow> addr \<times> store" where
  "flatten p s = alloc (deref s p) s"

text \<open>\<open>np.concatenate((a, b))\<close>: a new array, the two joined.\<close>

definition concatenate :: "addr \<Rightarrow> addr \<Rightarrow> store \<Rightarrow> addr \<times> store" where
  "concatenate p q s = alloc (deref s p @ deref s q) s"

definition converge_body_st ::
  "addr \<Rightarrow> 'a ref_hist_scheme \<Rightarrow> store \<Rightarrow> (error + res_roi_ref) \<times> store" where
  "converge_body_st zeros_ref dvh s =
     (case getitem_last (deref s (counts_ref dvh)) of
        Inl e \<Rightarrow> (Inl e, s)
      | Inr c \<Rightarrow>
          if c \<noteq> 0 then
            (case tmp_bincenters_loop (deref s (bincenters_ref dvh)) [0..<3] [] of
               Inl e \<Rightarrow> (Inl e, s)
             | Inr tmp \<Rightarrow>
                 let (t1, s1) = np_array tmp s;
                     (f1, s2) = flatten (bincenters_ref dvh) s1;
                     (t2, s3) = concatenate f1 t1 s2;
                     (b, s4) = np_array (deref s3 t2) s3;
                     (f2, s5) = flatten (counts_ref dvh) s4;
                     (z, s6) = np_array (deref s5 zeros_ref) s5;
                     (c', s7) = concatenate f2 z s6
                 in (Inr \<lparr>res_bincenters_ref = b, res_counts_ref = c'\<rparr>, s7))
          else (Inr \<lparr>res_bincenters_ref = bincenters_ref dvh,
                     res_counts_ref = counts_ref dvh\<rparr>, s))"

fun converge_loop_st ::
  "addr \<Rightarrow> ('k, 'a ref_hist_scheme) dict \<Rightarrow> ('k, res_roi_ref) dict \<Rightarrow> store
     \<Rightarrow> (error + ('k, res_roi_ref) dict) \<times> store" where
  "converge_loop_st zeros_ref [] res s = (Inr res, s)"
| "converge_loop_st zeros_ref ((roi, dvh) # rest) res s =
     (case converge_body_st zeros_ref dvh s of
        (Inl e, s') \<Rightarrow> (Inl e, s')
      | (Inr h, s') \<Rightarrow> converge_loop_st zeros_ref rest (AList.update roi h res) s')"

definition converge_to_zero_dvh_st ::
  "('k, 'a ref_hist_scheme) dict \<Rightarrow> store \<Rightarrow> (error + ('k, res_roi_ref) dict) \<times> store" where
  "converge_to_zero_dvh_st dict_dvh s =
     (let (zeros_ref, s0) = np_array (replicate 3 0) s
      in converge_loop_st zeros_ref dict_dvh [] s0)"

text \<open>
  Reading a histogram, a collection of them, a stored dict and a returned collection
  out of a store.
\<close>

definition read_hist :: "store \<Rightarrow> 'a ref_hist_scheme \<Rightarrow> hist" where
  "read_hist s h = \<lparr>bincenters = deref s (bincenters_ref h), counts = deref s (counts_ref h)\<rparr>"

definition read_dict :: "store \<Rightarrow> ('k, 'a ref_hist_scheme) dict \<Rightarrow> ('k, hist) dict" where
  "read_dict s d = map (\<lambda>(k, h). (k, read_hist s h)) d"

definition read_res_roi :: "store \<Rightarrow> res_roi_ref \<Rightarrow> res_roi" where
  "read_res_roi s h =
     \<lparr>res_bincenters = deref s (res_bincenters_ref h), res_counts = deref s (res_counts_ref h)\<rparr>"

definition read_res :: "store \<Rightarrow> ('k, res_roi_ref) dict \<Rightarrow> ('k, res_roi) dict" where
  "read_res s res = map (\<lambda>(k, h). (k, read_res_roi s h)) res"

section \<open>get_roi_info\<close>

text \<open>
  An element of \<open>ds_rtss.StructureSetROISequence\<close> with the four attributes the
  function reads, and the structure-set dataset holding the sequence.
\<close>

record roi_sequence_item =
  ROINumber :: int
  ReferencedFrameOfReferenceUID :: string
  ROIName :: string
  ROIGenerationAlgorithm :: string

record rtss_dataset =
  StructureSetROISequence :: "roi_sequence_item list"

text \<open>
  \<open>dict_temp\<close>, the value stored per ROI, with its keys \<open>'uid'\<close>, \<open>'name'\<close> and
  \<open>'algorithm'\<close> (\<open>roi_name\<close> here, \<open>name\<close> being the attribute of a DVH).
\<close>

record dict_temp =
  uid :: string
  roi_name :: string
  algorithm :: string

text \<open>The body of the loop up to the assignment into \<open>dict_roi\<close>: \<open>dict_temp\<close> filled.\<close>

definition dict_temp_of :: "roi_sequence_item \<Rightarrow> dict_temp" where
  "dict_temp_of sequence =
     \<lparr>uid = ReferencedFrameOfReferenceUID sequence,
      roi_name = ROIName sequence,
      algorithm = ROIGenerationAlgorithm sequence\<rparr>"

fun get_roi_info_loop :: "roi_sequence_item list \<Rightarrow> (int, dict_temp) dict \<Rightarrow> (int, dict_temp) dict" where
  "get_roi_info_loop [] dict_roi = dict_roi"
| "get_roi_info_loop (sequence # rest) dict_roi =
     get_roi_info_loop rest (AList.update (ROINumber sequence) (dict_temp_of sequence) dict_roi)"

definition get_roi_info :: "rtss_dataset \<Rightarrow> (int, dict_temp) dict" where
  "get_roi_info ds_rtss = get_roi_info_loop (StructureSetROISequence ds_rtss) []"

section \<open>multi_get_dvhs and calc_dvhs\<close>

text \<open>
  \<open>dvhcalc.get_dvh\<close> is a parameter: a function of the structure set, the dose, the
  ROI number and the optional dose limit.  A worker builds the one-entry dict
  \<open>{roi: get_dvh(...)}\<close> and puts it on the queue; \<open>multi_get_dvhs\<close> is that dict.
\<close>

definition multi_get_dvhs ::
  "('ss \<Rightarrow> 'ds \<Rightarrow> 'k \<Rightarrow> 'l option \<Rightarrow> 'h) \<Rightarrow> 'ss \<Rightarrow> 'ds \<Rightarrow> 'k \<Rightarrow> 'l option \<Rightarrow> ('k, 'h) dict" where
  "multi_get_dvhs get_dvh rtss dose roi dose_limit =
     AList.update roi (get_dvh rtss dose roi dose_limit) []"

text \<open>\<open>d.update(other)\<close>: every item of \<open>other\<close> assigned into \<open>d\<close>, in order.\<close>

definition dict_update :: "('k, 'v) dict \<Rightarrow> ('k, 'v) dict \<Rightarrow> ('k, 'v) dict" where
  "dict_update d other = fold (\<lambda>(k, v). AList.update k v) other d"

text \<open>\<open>for key in dict_roi: roi_list.append(key)\<close>\<close>

fun roi_list_loop :: "('k, 'v) dict \<Rightarrow> 'k list \<Rightarrow> 'k list" where
  "roi_list_loop [] roi_list = roi_list"
| "roi_list_loop ((key, v) # rest) roi_list = roi_list_loop rest (roi_list @ [key])"

text \<open>
  The workers run in parallel, so the order in which their results reach the queue is
  not fixed by the program.  It is the parameter \<open>sched\<close>: the numbers of the workers
  (positions in \<open>roi_list\<close>) in the order of their \<open>queue.put\<close>.  A number that names
  no worker puts nothing.  In a run without faults every worker puts once, so \<open>sched\<close>
  is a permutation of \<open>[0..<N]\<close>.
\<close>

definition queue_of :: "'m list \<Rightarrow> nat list \<Rightarrow> 'm list" where
  "queue_of msgs sched =
     concat (map (\<lambda>i. if i < length msgs then [msgs ! i] else []) sched)"

text \<open>
  \<open>for proc in processes: dvh = queue.get(); dict_dvh.update(dvh)\<close>.  \<open>queue.get()\<close>
  on a queue that stays empty blocks for ever: the loop then returns nothing.
\<close>

fun collect_loop :: "'p list \<Rightarrow> ('k, 'h) dict list \<Rightarrow> ('k, 'h) dict \<Rightarrow> ('k, 'h) dict option" where
  "collect_loop [] queue dict_dvh = Some dict_dvh"
| "collect_loop (proc # rest) [] dict_dvh = None"
| "collect_loop (proc # rest) (dvh # queue) dict_dvh =
     collect_loop rest queue (dict_update dict_dvh dvh)"

text \<open>
  \<open>calc_dvhs\<close>.  Its own \<open>dose_limit\<close> is not handed to the workers
  (\<open>args=(rtss, rtdose, roi_list[i], queue)\<close>), which therefore run with the default
  \<open>None\<close>.
\<close>

definition calc_dvhs ::
  "('ss \<Rightarrow> 'ds \<Rightarrow> 'k \<Rightarrow> 'l option \<Rightarrow> 'h) \<Rightarrow> nat list \<Rightarrow> 'ss \<Rightarrow> 'ds \<Rightarrow> ('k, 'v) dict \<Rightarrow> 'l option
     \<Rightarrow> ('k, 'h) dict option" where
  "calc_dvhs get_dvh sched rtss rtdose dict_roi dose_limit =
     (let roi_list = roi_list_loop dict_roi [];
          processes = map (\<lambda>i. multi_get_dvhs get_dvh rtss rtdose (roi_list ! i) None)
                        [0..<length roi_list]
      in collect_loop processes (queue_of processes sched) [])"

section \<open>dvh2csv\<close>

text \<open>
  A cell of a row or of a data frame: a string, a number, or the missing value
  (\<open>None\<close> in a list, \<open>NaN\<close> in a frame).
\<close>

datatype cell = Str string | Num real | NaN

text \<open>
  \<open>range(0, stop, step)\<close> as the list of its values, for a positive \<open>step\<close> (it is 10
  at both calls).
\<close>

definition range_step :: "nat \<Rightarrow> nat \<Rightarrow> nat list" where
  "range_step stop step = map (\<lambda>j. j * step) [0..<(stop + step - 1) div step]"

text \<open>\<open>str(i)\<close> for a non-negative integer: its decimal digits.\<close>

function str_nat :: "nat \<Rightarrow> string" where
  "str_nat n =
     (if n < 10 then [''0123456789'' ! n]
      else str_nat (n div 10) @ [''0123456789'' ! (n mod 10)])"
  by pat_completeness auto
termination
  by (relation "measure id") auto

text \<open>
  The inner loop, \<open>for i in range(0, len(dose), 10)\<close>, over the values of \<open>i\<close> still to
  come, with the row and \<open>max_roi_dose\<close> as its state.  Every \<open>i\<close> of the range is below
  \<open>len(dose)\<close>, so \<open>dose[i]\<close> is in range.
\<close>

fun sample_loop :: "real list \<Rightarrow> nat list \<Rightarrow> cell list \<times> nat \<Rightarrow> cell list \<times> nat" where
  "sample_loop dose [] st = st"
| "sample_loop dose (i # rest) (dvh_roi_list, max_roi_dose) =
     sample_loop dose rest
       (dvh_roi_list @ [Num (dose ! i)], if i > max_roi_dose then i else max_roi_dose)"

text \<open>
  The outer loop, \<open>for i in dict_dvh\<close>, with \<open>dvh_csv_list\<close> and \<open>max_roi_dose\<close>.
  The inner loop reuses the name \<open>i\<close>; the outer iteration does not depend on it.
\<close>

fun rows_loop :: "('k, 'a DVH_scheme) dict \<Rightarrow> string \<Rightarrow> cell list list \<times> nat \<Rightarrow> cell list list \<times> nat" where
  "rows_loop [] patient_id st = st"
| "rows_loop ((roi, dvh) # rest) patient_id (dvh_csv_list, max_roi_dose) =
     (let dvh_roi_list = [Str patient_id, Str (name dvh), Num (volume dvh)];
          dose = relative_volume_counts dvh;
          (dvh_roi_list', max_roi_dose') =
             sample_loop dose (range_step (length dose) 10) (dvh_roi_list, max_roi_dose)
      in rows_loop rest patient_id (dvh_csv_list @ [dvh_roi_list'], max_roi_dose'))"

text \<open>The header: the three fixed names, then \<open>str(i) + 'cGy'\<close> for \<open>i\<close> in
  \<open>range(0, max_roi_dose + 1, 10)\<close>.\<close>

definition csv_header_of :: "nat \<Rightarrow> string list" where
  "csv_header_of max_roi_dose =
     [''Patient ID'', ''ROI'', ''Volume (mL)'']
       @ map (\<lambda>i. str_nat i @ ''cGy'') (range_step (max_roi_dose + 1) 10)"

text \<open>
  The pandas operations the function calls.  A frame has its column names, its rows and,
  once \<open>set_index\<close> has run, the name and the cells of its index column.

  \<open>pd.DataFrame(rows, columns=header)\<close> on a list of lists: no rows give an empty frame
  with the given columns; otherwise the data is as wide as its longest row, shorter rows
  are filled up with the missing value, and a header of another width is a ValueError.
\<close>

record dataframe =
  index_name :: "string option"
  index_cells :: "cell list"
  columns :: "string list"
  data :: "cell list list"

definition DataFrame :: "cell list list \<Rightarrow> string list \<Rightarrow> error + dataframe" where
  "DataFrame rows header =
     (if rows = [] then
        Inr \<lparr>index_name = None, index_cells = [], columns = header, data = []\<rparr>
      else
        let width = fold max (map length rows) 0 in
        if length header \<noteq> width then Inl ValueError
        else Inr \<lparr>index_name = None, index_cells = [], columns = header,
                  data = map (\<lambda>r. r @ replicate (width - length r) NaN) rows\<rparr>)"

text \<open>
  \<open>round(2)\<close>: every number to the nearest multiple of 1/100, a tie to the even one;
  strings and missing values stay.
\<close>

definition rint :: "real \<Rightarrow> int" where
  "rint x =
     (let f = \<lfloor>x\<rfloor>; d = x - of_int f
      in if d < 1 / 2 then f else if 1 / 2 < d then f + 1 else if even f then f else f + 1)"

definition np_round2 :: "real \<Rightarrow> real" where
  "np_round2 x = of_int (rint (x * 100)) / 100"

fun round_cell :: "cell \<Rightarrow> cell" where
  "round_cell (Num x) = Num (np_round2 x)"
| "round_cell c = c"

definition round2 :: "dataframe \<Rightarrow> dataframe" where
  "round2 df = df\<lparr>data := map (map round_cell) (data df)\<rparr>"

text \<open>\<open>fillna(0.0)\<close>\<close>

fun fill_cell :: "cell \<Rightarrow> cell" where
  "fill_cell NaN = Num 0"
| "fill_cell c = c"

definition fillna :: "dataframe \<Rightarrow> dataframe" where
  "fillna df = df\<lparr>data := map (map fill_cell) (data df)\<rparr>"

text \<open>
  \<open>set_index(col)\<close>: the column leaves the data and becomes the index; KeyError when
  the frame has no such column.
\<close>

fun index_of :: "'a \<Rightarrow> 'a list \<Rightarrow> nat option" where
  "index_of x [] = None"
| "index_of x (y # ys) = (if x = y then Some 0 else map_option Suc (index_of x ys))"

definition drop_nth :: "nat \<Rightarrow> 'a list \<Rightarrow> 'a list" where
  "drop_nth j xs = take j xs @ drop (Suc j) xs"

definition set_index :: "string \<Rightarrow> dataframe \<Rightarrow> error + dataframe" where
  "set_index col df =
     (case index_of col (columns df) of
        None \<Rightarrow> Inl KeyError
      | Some j \<Rightarrow>
          Inr \<lparr>index_name = Some col,
               index_cells = map (\<lambda>r. r ! j) (data df),
               columns = drop_nth j (columns df),
               data = map (drop_nth j) (data df)\<rparr>)"

text \<open>
  \<open>to_csv(path)\<close>: the file written, as its path, its header line and its data lines,
  each line a list of fields; the index column comes first.
\<close>

record csv_file =
  file_path :: string
  header :: "string list"
  lines :: "cell list list"

definition to_csv :: "string \<Rightarrow> dataframe \<Rightarrow> csv_file" where
  "to_csv tar_path df =
     \<lparr>file_path = tar_path,
      header = (case index_name df of None \<Rightarrow> [] | Some n \<Rightarrow> n) # columns df,
      lines = map (\<lambda>(i, r). i # r) (zip (index_cells df) (data df))\<rparr>"

definition dvh2csv :: "('k, 'a DVH_scheme) dict \<Rightarrow> string \<Rightarrow> string \<Rightarrow> string \<Rightarrow> error + csv_file" where
  "dvh2csv dict_dvh path csv_name patient_id =
     (let tar_path = path @ csv_name @ ''.csv'';
          (dvh_csv_list, max_roi_dose) = rows_loop dict_dvh patient_id ([], 0);
          csv_header = csv_header_of max_roi_dose
      in case DataFrame dvh_csv_list csv_header of
           Inl e \<Rightarrow> Inl e
         | Inr df \<Rightarrow>
             (case set_index ''Patient ID'' (fillna (round2 df)) of
                Inl e \<Rightarrow> Inl e
              | Inr pd_df_csv \<Rightarrow> Inr (to_csv tar_path pd_df_csv)))"

section \<open>The exporter's table as the specification describes it\<close>

text \<open>
  The indices at which a series is sampled: 0, 10, 20, ... below its length.
\<close>

definition sampled_indices :: "real list \<Rightarrow> nat list" where
  "sampled_indices dose = filter (\<lambda>i. 10 dvd i) [0..<length dose]"

definition samples :: "real list \<Rightarrow> real list" where
  "samples dose = map (\<lambda>i. dose ! i) (sampled_indices dose)"

text \<open>
  The global maximum sampled index: the largest index sampled in any ROI's
  \<open>relative_volume.counts\<close>.  Index 0 is the first one sampled in every series that has
  a sample, and it is the maximum when no series has one.
\<close>

definition global_max_sampled_index :: "('k, 'a DVH_scheme) dict \<Rightarrow> nat" where
  "global_max_sampled_index dict_dvh =
     Max (insert 0 (\<Union>(roi, dvh) \<in> set dict_dvh. set (sampled_indices (relative_volume_counts dvh))))"

text \<open>
  The header: the three fixed columns, then one column \<open><k>cGy\<close> for every multiple of
  10 from 0 up to the global maximum sampled index, inclusive.
\<close>

definition spec_header :: "('k, 'a DVH_scheme) dict \<Rightarrow> string list" where
  "spec_header dict_dvh =
     [''Patient ID'', ''ROI'', ''Volume (mL)'']
       @ map (\<lambda>k. str_nat k @ ''cGy'')
           (filter (\<lambda>k. 10 dvd k) [0..<Suc (global_max_sampled_index dict_dvh)])"

text \<open>
  The line of one ROI in a table of the given width: patient id, ROI name, the volume
  and the samples rounded to two decimals, and \<open>0.0\<close> in every column the ROI has no
  sample for.
\<close>

definition spec_line :: "string \<Rightarrow> nat \<Rightarrow> 'a DVH_scheme \<Rightarrow> cell list" where
  "spec_line patient_id width dvh =
     [Str patient_id, Str (name dvh), Num (np_round2 (volume dvh))]
       @ map (\<lambda>x. Num (np_round2 x)) (samples (relative_volume_counts dvh))
       @ replicate (width - (3 + length (samples (relative_volume_counts dvh)))) (Num 0)"

text \<open>
  Two closed forms used in the proofs about \<open>dvh2csv\<close>: the row one pass of the outer
  loop appends to \<open>dvh_csv_list\<close>, and the number of samples of the widest ROI.
\<close>

definition row_of :: "string \<Rightarrow> 'a DVH_scheme \<Rightarrow> cell list" where
  "row_of patient_id dvh =
     [Str patient_id, Str (name dvh), Num (volume dvh)]
       @ map Num (samples (relative_volume_counts dvh))"

definition blocks :: "('k, 'a DVH_scheme) dict \<Rightarrow> nat" where
  "blocks d = fold max (map (\<lambda>(roi, dvh). length (samples (relative_volume_counts dvh))) d) 0"

section \<open>Properties of converge_to_zero_dvh\<close>

subsection \<open>Association lists and the loop body\<close>

lemma update_fresh: "k \<notin> fst ` set al \<Longrightarrow> AList.update k v al = al @ [(k, v)]"
  by (induction al) auto

lemma set_update_subset: "set (AList.update k v al) \<subseteq> insert (k, v) (set al)"
  by (induction al) auto

lemma getitem_last_Nil [simp]: "getitem_last [] = Inl IndexError"
  by (simp add: getitem_last_def)

lemma getitem_last_nonempty [simp]: "a \<noteq> [] \<Longrightarrow> getitem_last a = Inr (last a)"
  by (simp add: getitem_last_def)

lemma tmp_bincenters_loop_nonempty:
  "bc \<noteq> [] \<Longrightarrow> tmp_bincenters_loop bc js tmp = Inr (tmp @ map (\<lambda>i. last bc + real i) js)"
  by (induction js arbitrary: tmp) auto

lemma upt_3: "[0..<3] = [0, Suc 0, 2]"
  by (simp add: upt_rec numeral_3_eq_3 numeral_2_eq_2)

lemma converge_body_eq:
  "converge_body dvh =
     (if counts dvh = [] then Inl IndexError
      else if last (counts dvh) = 0
        then Inr \<lparr>res_bincenters = bincenters dvh, res_counts = counts dvh\<rparr>
      else if bincenters dvh = [] then Inl IndexError
      else Inr \<lparr>res_bincenters = bincenters dvh
                    @ [last (bincenters dvh), last (bincenters dvh) + 1, last (bincenters dvh) + 2],
                res_counts = counts dvh @ [0, 0, 0]\<rparr>)"
  by (simp add: converge_body_def upt_3 tmp_bincenters_loop_nonempty zeros_def numeral_3_eq_3)

subsection \<open>The loop\<close>

lemma converge_body_error: "converge_body dvh = Inl e \<Longrightarrow> e = IndexError"
  by (auto simp: converge_body_eq split: if_splits)

lemma converge_loop_empty_counts:
  "(k, dvh) \<in> set d \<Longrightarrow> counts dvh = [] \<Longrightarrow> converge_loop d res = Inl IndexError"
proof (induction d arbitrary: res)
  case Nil
  then show ?case by simp
next
  case (Cons p d)
  obtain roi h where p: "p = (roi, h)" by (cases p)
  show ?case
  proof (cases "converge_body h")
    case (Inl e)
    then show ?thesis using p converge_body_error [OF Inl] by simp
  next
    case (Inr x)
    then have "(roi, h) \<noteq> (k, dvh)" using Cons.prems(2) by (auto simp: converge_body_eq)
    then have "(k, dvh) \<in> set d" using Cons.prems(1) p by auto
    then show ?thesis using p Inr Cons.IH Cons.prems(2) by simp
  qed
qed

lemma converge_loop_ok:
  assumes "\<forall>(k, dvh) \<in> set d. \<exists>h. converge_body dvh = Inr h \<and> P h"
    and "\<forall>(k, h) \<in> set res. P h"
    and "distinct (map fst res)"
  shows "\<exists>r. converge_loop d res = Inr r \<and> (\<forall>(k, h) \<in> set r. P h) \<and> distinct (map fst r)"
  using assms
proof (induction d arbitrary: res)
  case Nil
  then show ?case by simp
next
  case (Cons p d)
  obtain roi dvh where p: "p = (roi, dvh)" by (cases p)
  from Cons.prems(1) p obtain h where h: "converge_body dvh = Inr h" "P h" by auto
  have "\<forall>(k, h) \<in> set (AList.update roi h res). P h"
    using set_update_subset [of roi h res] Cons.prems(2) h(2) by auto
  moreover have "distinct (map fst (AList.update roi h res))"
    using Cons.prems(3) by (simp add: distinct_update)
  moreover have "\<forall>(k, dvh) \<in> set d. \<exists>h. converge_body dvh = Inr h \<and> P h"
    using Cons.prems(1) by simp
  ultimately show ?case using Cons.IH p h(1) by simp
qed

lemma converge_loop_lookup:
  assumes "converge_loop d res = Inr r" and "distinct (map fst d)" and "(roi, dvh) \<in> set d"
  shows "\<exists>h. converge_body dvh = Inr h \<and> map_of r roi = Some h"
proof -
  have other: "converge_loop d res = Inr r \<Longrightarrow> roi \<notin> fst ` set d \<Longrightarrow> map_of r roi = map_of res roi"
    for d :: "('a \<times> ('b hist_scheme)) list" and res r roi
  proof (induction d arbitrary: res)
    case Nil
    then show ?case by simp
  next
    case (Cons p d)
    obtain k x where p: "p = (k, x)" by (cases p)
    from Cons.prems(1) p obtain h where h: "converge_body x = Inr h"
      and step: "converge_loop d (AList.update k h res) = Inr r"
      by (auto split: sum.splits)
    have "roi \<noteq> k" "roi \<notin> fst ` set d" using Cons.prems(2) p by auto
    then show ?case using Cons.IH [OF step] by (simp add: update_conv')
  qed
  show ?thesis using assms
  proof (induction d arbitrary: res)
    case Nil
    then show ?case by simp
  next
    case (Cons p d)
    obtain k x where p: "p = (k, x)" by (cases p)
    from Cons.prems(1) p obtain h where h: "converge_body x = Inr h"
      and step: "converge_loop d (AList.update k h res) = Inr r"
      by (auto split: sum.splits)
    show ?case
    proof (cases "(roi, dvh) = (k, x)")
      case True
      then have "roi \<notin> fst ` set d" using Cons.prems(2) p by auto
      then have "map_of r roi = map_of (AList.update k h res) roi"
        using other [OF step] by simp
      then show ?thesis using True h by (simp add: update_conv')
    next
      case False
      then have "(roi, dvh) \<in> set d" using Cons.prems(3) p by auto
      moreover have "distinct (map fst d)" using Cons.prems(2) by simp
      ultimately show ?thesis using Cons.IH [OF step] by simp
    qed
  qed
qed

lemma converge_loop_nonempty:
  "converge_loop d res = Inr r \<Longrightarrow> d \<noteq> [] \<or> res \<noteq> [] \<Longrightarrow> r \<noteq> []"
proof (induction d arbitrary: res)
  case Nil
  then show ?case by simp
next
  case (Cons p d)
  obtain k x where p: "p = (k, x)" by (cases p)
  from Cons.prems(1) p obtain h where step: "converge_loop d (AList.update k h res) = Inr r"
    by (auto split: sum.splits)
  show ?case by (rule Cons.IH [OF step]) simp
qed

lemma converge_loop_dyn_objects:
  "converge_loop_dyn (objects d) res = converge_loop d res"
  by (induction d res rule: converge_loop.induct) (auto simp: objects_def split: sum.splits)

lemma converge_dyn_objects:
  "converge_to_zero_dvh_dyn (objects d) = converge_to_zero_dvh d"
  by (simp add: converge_to_zero_dvh_dyn_def converge_to_zero_dvh_def converge_loop_dyn_objects)

lemma converge_dyn_plain_dicts:
  "res \<noteq> [] \<Longrightarrow> converge_to_zero_dvh_dyn (plain_dicts res) = Inl AttributeError"
  by (cases res) (auto simp: converge_to_zero_dvh_dyn_def plain_dicts_def)

lemma converge_loop_pass:
  assumes "distinct (map fst r)" and "fst ` set r \<inter> fst ` set acc = {}"
    and "\<forall>(k, h) \<in> set r. res_counts h \<noteq> [] \<and> last (res_counts h) = 0"
  shows "converge_loop (as_histograms r) acc = Inr (acc @ r)"
  using assms
proof (induction r arbitrary: acc)
  case Nil
  then show ?case by (simp add: as_histograms_def)
next
  case (Cons p r)
  obtain k h where p: "p = (k, h)" by (cases p)
  have body: "converge_body \<lparr>bincenters = res_bincenters h, counts = res_counts h\<rparr> = Inr h"
    using Cons.prems(3) p by (simp add: converge_body_eq)
  have fresh: "k \<notin> fst ` set acc" using Cons.prems(2) p by auto
  have upd: "AList.update k h acc = acc @ [(k, h)]" using fresh by (rule update_fresh)
  have "distinct (map fst r)" using Cons.prems(1) by simp
  moreover have "fst ` set r \<inter> fst ` set (acc @ [(k, h)]) = {}"
    using Cons.prems(1,2) p by auto
  moreover have "\<forall>(k, h) \<in> set r. res_counts h \<noteq> [] \<and> last (res_counts h) = 0"
    using Cons.prems(3) by simp
  ultimately have "converge_loop (as_histograms r) (acc @ [(k, h)]) = Inr ((acc @ [(k, h)]) @ r)"
    by (rule Cons.IH)
  moreover have "as_histograms (p # r)
      = (k, \<lparr>bincenters = res_bincenters h, counts = res_counts h\<rparr>) # as_histograms r"
    by (simp add: as_histograms_def p)
  ultimately show ?case using body upd p by simp
qed

subsection \<open>What the extension appends\<close>

text \<open>
  C1, the scenario as the specification gives it: bin centers \<open>[0, 10]\<close> with counts
  \<open>[2, 1]\<close> are said to become \<open>[0, 10, 11, 12, 13]\<close>.  The loop adds \<open>i\<close> for
  \<open>i\<close> in \<open>range(3)\<close>, that is 0, 1 and 2, so the result is another one.
\<close>

theorem converge_scenario_counterexample:
  "converge_to_zero_dvh [(2::int, \<lparr>bincenters = [0, 10], counts = [2, 1]\<rparr>)]
     \<noteq> Inr [(2, \<lparr>res_bincenters = [0, 10, 11, 12, 13], res_counts = [2, 1, 0, 0, 0]\<rparr>)]"
  by (simp add: converge_to_zero_dvh_def converge_body_eq)

text \<open>
  C1, as the code has it: when every histogram of the collection can be normalised, the
  call returns, and a histogram whose last count is not zero is stored with exactly three
  more bin centers, \<open>last_center\<close>, \<open>last_center + 1\<close> and \<open>last_center + 2\<close>, and
  exactly three more counts, all zero.
\<close>

theorem converge_appends_three:
  assumes "distinct (map fst dict_dvh)"
    and "\<forall>(roi, dvh) \<in> set dict_dvh.
           counts dvh \<noteq> [] \<and> (last (counts dvh) \<noteq> 0 \<longrightarrow> bincenters dvh \<noteq> [])"
  shows "\<exists>res. converge_to_zero_dvh dict_dvh = Inr res \<and>
           (\<forall>(roi, dvh) \<in> set dict_dvh. last (counts dvh) \<noteq> 0 \<longrightarrow>
              map_of res roi =
                Some \<lparr>res_bincenters = bincenters dvh
                         @ [last (bincenters dvh), last (bincenters dvh) + 1,
                            last (bincenters dvh) + 2],
                      res_counts = counts dvh @ [0, 0, 0]\<rparr>)"
proof -
  have "\<forall>(k, dvh) \<in> set dict_dvh. \<exists>h. converge_body dvh = Inr h \<and> True"
    using assms(2) by (auto simp: converge_body_eq)
  then obtain res where res: "converge_loop dict_dvh [] = Inr res"
    using converge_loop_ok [of dict_dvh "\<lambda>h. True" "[]"] by auto
  have "map_of res roi =
          Some \<lparr>res_bincenters = bincenters dvh
                   @ [last (bincenters dvh), last (bincenters dvh) + 1,
                      last (bincenters dvh) + 2],
                res_counts = counts dvh @ [0, 0, 0]\<rparr>"
    if "(roi, dvh) \<in> set dict_dvh" and "last (counts dvh) \<noteq> 0" for roi dvh
  proof -
    from converge_loop_lookup [OF res assms(1) that(1)]
    obtain h where h: "converge_body dvh = Inr h" "map_of res roi = Some h" by blast
    have "counts dvh \<noteq> []" "bincenters dvh \<noteq> []" using assms(2) that by auto
    then show ?thesis using h that(2) by (simp add: converge_body_eq)
  qed
  then show ?thesis using res by (auto simp: converge_to_zero_dvh_def)
qed

theorem converge_appends_three_witness:
  "converge_to_zero_dvh [(2::int, \<lparr>bincenters = [0, 10], counts = [2, 1]\<rparr>)]
     = Inr [(2, \<lparr>res_bincenters = [0, 10, 10, 11, 12], res_counts = [2, 1, 0, 0, 0]\<rparr>)]"
proof -
  let ?d = "[(2::int, \<lparr>bincenters = [0, 10], counts = [2, 1]\<rparr>)]"
  have keys: "distinct (map fst ?d)" by simp
  have arrays: "\<forall>(roi, dvh) \<in> set ?d.
      counts dvh \<noteq> [] \<and> (last (counts dvh) \<noteq> 0 \<longrightarrow> bincenters dvh \<noteq> [])"
    by simp
  from converge_appends_three [OF keys arrays]
  obtain res where res: "converge_to_zero_dvh ?d = Inr res"
    and ext: "map_of res 2
        = Some \<lparr>res_bincenters = [0, 10, 10, 11, 12], res_counts = [2, 1, 0, 0, 0]\<rparr>"
    by auto
  show ?thesis
    by (simp add: converge_to_zero_dvh_def converge_body_eq)
qed

subsection \<open>The invariant of the output\<close>

text \<open>
  C3: when every histogram of the input has a non-empty \<open>counts\<close> and as many bin centers
  as counts, the call returns, and every histogram of the result ends in a zero count and
  has as many bin centers as counts.
\<close>

theorem converge_invariant:
  assumes "\<forall>(roi, dvh) \<in> set dict_dvh.
             counts dvh \<noteq> [] \<and> length (bincenters dvh) = length (counts dvh)"
  shows "\<exists>res. converge_to_zero_dvh dict_dvh = Inr res \<and>
           (\<forall>(roi, h) \<in> set res.
              res_counts h \<noteq> [] \<and> last (res_counts h) = 0
              \<and> length (res_bincenters h) = length (res_counts h))"
proof -
  let ?P = "\<lambda>h::res_roi. res_counts h \<noteq> [] \<and> last (res_counts h) = 0
                \<and> length (res_bincenters h) = length (res_counts h)"
  have "\<forall>(k, dvh) \<in> set dict_dvh. \<exists>h. converge_body dvh = Inr h \<and> ?P h"
    using assms by (auto simp: converge_body_eq)
  then show ?thesis
    using converge_loop_ok [of dict_dvh ?P "[]"] by (auto simp: converge_to_zero_dvh_def)
qed

theorem converge_invariant_witness:
  "\<exists>res. converge_to_zero_dvh
            [(1::int, \<lparr>bincenters = [0, 10, 20], counts = [5, 3, 0]\<rparr>),
             (2, \<lparr>bincenters = [0, 10], counts = [2, 1]\<rparr>)] = Inr res
       \<and> list_all (\<lambda>(roi, h). res_counts h \<noteq> [] \<and> last (res_counts h) = 0
                        \<and> length (res_bincenters h) = length (res_counts h)) res"
proof -
  let ?d = "[(1::int, \<lparr>bincenters = [0, 10, 20], counts = [5, 3, 0]\<rparr>),
             (2, \<lparr>bincenters = [0, 10], counts = [2, 1]\<rparr>)]"
  have arrays: "\<forall>(roi, dvh) \<in> set ?d.
      counts dvh \<noteq> [] \<and> length (bincenters dvh) = length (counts dvh)"
    by simp
  from converge_invariant [OF arrays] show ?thesis
    by (simp add: list_all_iff)
qed

subsection \<open>A second pass\<close>

text \<open>
  C4, as the specification states it: the normaliser applied to its own output gives the
  same result as one application.  The output holds a plain dict per ROI, and the second
  call fails at \<open>dvh.counts\<close>: here the first call returns a histogram that already
  ends in zero as it is, and the call on what was returned raises AttributeError.
\<close>

theorem converge_second_pass_counterexample:
  "converge_to_zero_dvh_dyn
       (objects [(1::int, \<lparr>bincenters = [0, 10, 20], counts = [5, 3, 0]\<rparr>)])
     = Inr [(1, \<lparr>res_bincenters = [0, 10, 20], res_counts = [5, 3, 0]\<rparr>)]
   \<and> converge_to_zero_dvh_dyn
       (plain_dicts [(1::int, \<lparr>res_bincenters = [0, 10, 20], res_counts = [5, 3, 0]\<rparr>)]
          :: (int, unit dvh_value) dict)
     = Inl AttributeError"
  by (simp add: converge_to_zero_dvh_dyn_def objects_def plain_dicts_def converge_body_eq)

text \<open>
  C4, as the code has it: on a collection of histograms with non-empty arrays the call
  returns; handed what it returned, the function raises AttributeError (unless the
  collection is empty); and handed the returned entries made into histogram objects,
  with the two arrays of each entry as the attributes \<open>bincenters\<close> and \<open>counts\<close>,
  it returns the same result again: a histogram that ended in zero and one that was
  extended are both left as they are by the second pass.
\<close>

theorem converge_idempotent_rewrapped:
  fixes dict_dvh :: "('k, 'a hist_scheme) dict"
  assumes "\<forall>(roi, dvh) \<in> set dict_dvh. counts dvh \<noteq> [] \<and> bincenters dvh \<noteq> []"
  shows "\<exists>res. converge_to_zero_dvh_dyn (objects dict_dvh) = Inr res
           \<and> converge_to_zero_dvh_dyn (objects (as_histograms res)) = Inr res
           \<and> (dict_dvh \<noteq> [] \<longrightarrow>
                converge_to_zero_dvh_dyn (plain_dicts res :: ('k, 'a dvh_value) dict)
                  = Inl AttributeError)"
proof -
  let ?P = "\<lambda>h::res_roi. res_counts h \<noteq> [] \<and> last (res_counts h) = 0"
  have "\<forall>(k, dvh) \<in> set dict_dvh. \<exists>h. converge_body dvh = Inr h \<and> ?P h"
    using assms by (auto simp: converge_body_eq)
  then obtain res where res: "converge_loop dict_dvh [] = Inr res"
    and ends: "\<forall>(k, h) \<in> set res. ?P h" and dist: "distinct (map fst res)"
    using converge_loop_ok [of dict_dvh ?P "[]"] by auto
  have first: "converge_to_zero_dvh_dyn (objects dict_dvh) = Inr res"
    using res by (simp add: converge_dyn_objects converge_to_zero_dvh_def)
  have "converge_loop (as_histograms res) [] = Inr ([] @ res)"
    using dist _ ends by (rule converge_loop_pass) simp
  then have second: "converge_to_zero_dvh_dyn (objects (as_histograms res)) = Inr res"
    by (simp add: converge_dyn_objects converge_to_zero_dvh_def)
  have raw: "converge_to_zero_dvh_dyn (plain_dicts res :: ('k, 'a dvh_value) dict)
      = Inl AttributeError" if "dict_dvh \<noteq> []"
  proof -
    have "res \<noteq> []" using converge_loop_nonempty [OF res] that by simp
    then show ?thesis by (rule converge_dyn_plain_dicts)
  qed
  show ?thesis using first second raw by blast
qed

theorem converge_idempotent_rewrapped_witness:
  "\<exists>res. converge_to_zero_dvh_dyn
            (objects [(1::int, \<lparr>bincenters = [0, 10, 20], counts = [5, 3, 0]\<rparr>),
                      (2, \<lparr>bincenters = [0, 10], counts = [2, 1]\<rparr>)]) = Inr res
       \<and> converge_to_zero_dvh_dyn (objects (as_histograms res)) = Inr res
       \<and> converge_to_zero_dvh_dyn (plain_dicts res :: (int, unit dvh_value) dict)
           = Inl AttributeError"
proof -
  let ?d = "[(1::int, \<lparr>bincenters = [0, 10, 20], counts = [5, 3, 0]\<rparr>),
             (2, \<lparr>bincenters = [0, 10], counts = [2, 1]\<rparr>)]"
  have arrays: "\<forall>(roi, dvh) \<in> set ?d. counts dvh \<noteq> [] \<and> bincenters dvh \<noteq> []"
    by simp
  have some: "?d \<noteq> []" by simp
  from converge_idempotent_rewrapped [OF arrays] some show ?thesis by blast
qed

subsection \<open>Empty counts\<close>

text \<open>
  C7, as the specification states it: a histogram with no counts makes the normaliser
  raise MalformedHistogramError.  The source has no such exception; \<open>dvh.counts[-1]\<close>
  fails in numpy.
\<close>

theorem converge_empty_counts_counterexample:
  "converge_to_zero_dvh [(1::int, \<lparr>bincenters = [], counts = []\<rparr>)] \<noteq> Inl MalformedHistogramError"
  by (simp add: converge_to_zero_dvh_def converge_body_eq)

text \<open>
  C7, as the code has it: if any histogram of the collection has a zero-length
  \<open>counts\<close>, the call ends in an IndexError.
\<close>

theorem converge_empty_counts:
  assumes "(roi, dvh) \<in> set dict_dvh" and "counts dvh = []"
  shows "converge_to_zero_dvh dict_dvh = Inl IndexError"
  using assms by (simp add: converge_to_zero_dvh_def converge_loop_empty_counts)

theorem converge_empty_counts_witness:
  "converge_to_zero_dvh
     [(1::int, \<lparr>bincenters = [0, 10, 20], counts = [5, 3, 0]\<rparr>),
      (2, \<lparr>bincenters = [], counts = []\<rparr>)] = Inl IndexError"
proof -
  let ?h = "\<lparr>bincenters = [], counts = []\<rparr>"
  let ?d = "[(1::int, \<lparr>bincenters = [0, 10, 20], counts = [5, 3, 0]\<rparr>), (2, ?h)]"
  have member: "(2, ?h) \<in> set ?d" by simp
  have empty: "counts ?h = []" by simp
  from converge_empty_counts [OF member empty] show ?thesis .
qed

subsection \<open>The input arrays are left alone\<close>

lemma converge_body_st_read:
  assumes "bincenters_ref dvh < length s" and "counts_ref dvh < length s"
    and "z < length s" and "deref s z = replicate 3 0"
  shows "\<exists>ext r. converge_body_st z dvh s = (r, s @ ext) \<and>
           (case r of
              Inl e \<Rightarrow> converge_body (read_hist s dvh) = Inl e
            | Inr h \<Rightarrow> res_bincenters_ref h < length (s @ ext)
                \<and> res_counts_ref h < length (s @ ext)
                \<and> converge_body (read_hist s dvh) = Inr (read_res_roi (s @ ext) h))"
proof (cases "deref s (counts_ref dvh) = []")
  case True
  then have "converge_body_st z dvh s = (Inl IndexError, s @ [])"
    by (simp add: converge_body_st_def)
  moreover have "converge_body (read_hist s dvh) = Inl IndexError"
    using True by (simp add: converge_body_eq read_hist_def)
  ultimately show ?thesis
    by (intro exI [of _ "[]"] exI [of _ "Inl IndexError"]) simp
next
  case cs: False
  show ?thesis
  proof (cases "last (deref s (counts_ref dvh)) = 0")
    case True
    then have "converge_body_st z dvh s =
        (Inr \<lparr>res_bincenters_ref = bincenters_ref dvh, res_counts_ref = counts_ref dvh\<rparr>,
         s @ [])"
      using cs by (simp add: converge_body_st_def)
    moreover have "converge_body (read_hist s dvh) =
        Inr (read_res_roi (s @ [])
               \<lparr>res_bincenters_ref = bincenters_ref dvh, res_counts_ref = counts_ref dvh\<rparr>)"
      using True cs by (simp add: converge_body_eq read_hist_def read_res_roi_def)
    ultimately show ?thesis using assms(1,2) True
      by (intro exI [of _ "[]"]
          exI [of _ "Inr \<lparr>res_bincenters_ref = bincenters_ref dvh,
                          res_counts_ref = counts_ref dvh\<rparr>"]) simp
  next
    case nz: False
    show ?thesis
    proof (cases "deref s (bincenters_ref dvh) = []")
      case True
      then have "converge_body_st z dvh s = (Inl IndexError, s @ [])"
        using cs nz by (simp add: converge_body_st_def upt_3)
      moreover have "converge_body (read_hist s dvh) = Inl IndexError"
        using True cs nz by (simp add: converge_body_eq read_hist_def)
      ultimately show ?thesis
    by (intro exI [of _ "[]"] exI [of _ "Inl IndexError"]) simp
    next
      case bs: False
      let ?b = "deref s (bincenters_ref dvh)"
      let ?c = "deref s (counts_ref dvh)"
      let ?tmp = "[last ?b, last ?b + 1, last ?b + 2]"
      let ?ext = "[?tmp, ?b, ?b @ ?tmp, ?b @ ?tmp, ?c, replicate 3 0, ?c @ replicate 3 0]"
      let ?h = "\<lparr>res_bincenters_ref = length s + 3, res_counts_ref = length s + 6\<rparr>"
      have run: "converge_body_st z dvh s = (Inr ?h, s @ ?ext)"
        using cs nz bs assms
        by (simp add: converge_body_st_def upt_3 tmp_bincenters_loop_nonempty np_array_def
            flatten_def concatenate_def alloc_def deref_def nth_append Let_def)
      have "converge_body (read_hist s dvh) = Inr (read_res_roi (s @ ?ext) ?h)"
        using cs nz bs
        by (simp add: converge_body_eq read_hist_def read_res_roi_def deref_def nth_append
            numeral_3_eq_3)
      then show ?thesis using run
        by (intro exI [of _ ?ext] exI [of _ "Inr ?h"]) simp
    qed
  qed
qed


lemma read_hist_append:
  "bincenters_ref h < length s \<Longrightarrow> counts_ref h < length s \<Longrightarrow>
     read_hist (s @ ext) h = read_hist s h"
  by (simp add: read_hist_def deref_def nth_append)

lemma read_dict_append:
  "\<forall>(k, h) \<in> set d. bincenters_ref h < length s \<and> counts_ref h < length s \<Longrightarrow>
     read_dict (s @ ext) d = read_dict s d"
  by (auto simp: read_dict_def read_hist_append)

lemma read_dict_Nil: "read_dict s [] = []"
  by (simp add: read_dict_def)

lemma read_dict_Cons: "read_dict s ((k, h) # d) = (k, read_hist s h) # read_dict s d"
  by (simp add: read_dict_def)

lemma read_res_append:
  "\<forall>(k, h) \<in> set res. res_bincenters_ref h < length s \<and> res_counts_ref h < length s \<Longrightarrow>
     read_res (s @ ext) res = read_res s res"
  by (auto simp: read_res_def read_res_roi_def deref_def nth_append)

lemma read_res_Nil: "read_res s [] = []"
  by (simp add: read_res_def)

lemma read_res_update:
  "read_res s (AList.update k h res) = AList.update k (read_res_roi s h) (read_res s res)"
  by (induction res) (auto simp: read_res_def)

lemma converge_loop_st_read:
  assumes "\<forall>(k, h) \<in> set d. bincenters_ref h < length s \<and> counts_ref h < length s"
    and "\<forall>(k, h) \<in> set res. res_bincenters_ref h < length s \<and> res_counts_ref h < length s"
    and "z < length s" and "deref s z = replicate 3 0"
  shows "\<exists>ext r. converge_loop_st z d res s = (r, s @ ext) \<and>
           (case r of
              Inl e \<Rightarrow> converge_loop (read_dict s d) (read_res s res) = Inl e
            | Inr out \<Rightarrow>
                converge_loop (read_dict s d) (read_res s res) = Inr (read_res (s @ ext) out))"
  using assms
proof (induction d arbitrary: res s)
  case Nil
  show ?case
    by (intro exI [of _ "[]"] exI [of _ "Inr res"]) (simp add: read_dict_Nil read_res_Nil)
next
  case (Cons p d)
  obtain roi dvh where p: "p = (roi, dvh)" by (cases p)
  have refs: "bincenters_ref dvh < length s" "counts_ref dvh < length s"
    using Cons.prems(1) p by auto
  from converge_body_st_read [OF refs Cons.prems(3,4)]
  obtain e1 r1 where body: "converge_body_st z dvh s = (r1, s @ e1)"
    and r1: "case r1 of
               Inl e \<Rightarrow> converge_body (read_hist s dvh) = Inl e
             | Inr h \<Rightarrow> res_bincenters_ref h < length (s @ e1)
                 \<and> res_counts_ref h < length (s @ e1)
                 \<and> converge_body (read_hist s dvh) = Inr (read_res_roi (s @ e1) h)"
    by blast
  show ?case
  proof (cases r1)
    case (Inl e)
    then have "converge_loop_st z (p # d) res s = (Inl e, s @ e1)"
      using p body by simp
    moreover have "converge_loop (read_dict s (p # d)) (read_res s res) = Inl e"
      using p r1 Inl by (simp add: read_dict_Cons)
    ultimately show ?thesis
      by (intro exI [of _ e1] exI [of _ "Inl e"]) simp
  next
    case (Inr h)
    let ?s = "s @ e1"
    let ?res = "AList.update roi h res"
    have h: "res_bincenters_ref h < length ?s" "res_counts_ref h < length ?s"
      and pure: "converge_body (read_hist s dvh) = Inr (read_res_roi ?s h)"
      using r1 Inr by simp_all
    have d_refs: "\<forall>(k, h) \<in> set d. bincenters_ref h < length ?s \<and> counts_ref h < length ?s"
      using Cons.prems(1) by auto
    have res_refs: "\<forall>(k, h) \<in> set ?res.
        res_bincenters_ref h < length ?s \<and> res_counts_ref h < length ?s"
      using set_update_subset [of roi h res] Cons.prems(2) h by fastforce
    have z: "z < length ?s" "deref ?s z = replicate 3 0"
      using Cons.prems(3,4) by (simp_all add: deref_def nth_append)
    from Cons.IH [OF d_refs res_refs z]
    obtain e2 r where rest: "converge_loop_st z d ?res ?s = (r, ?s @ e2)"
      and r: "case r of
                Inl e \<Rightarrow> converge_loop (read_dict ?s d) (read_res ?s ?res) = Inl e
              | Inr out \<Rightarrow>
                  converge_loop (read_dict ?s d) (read_res ?s ?res) = Inr (read_res (?s @ e2) out)"
      by blast
    have d_eq: "read_dict ?s d = read_dict s d"
      using Cons.prems(1) by (intro read_dict_append) auto
    have res_eq: "read_res ?s ?res = AList.update roi (read_res_roi ?s h) (read_res s res)"
      using Cons.prems(2) by (simp add: read_res_update read_res_append)
    have run: "converge_loop_st z (p # d) res s = (r, s @ (e1 @ e2))"
      using p body Inr rest by simp
    have pure_step: "converge_loop (read_dict s (p # d)) (read_res s res) =
        converge_loop (read_dict ?s d) (read_res ?s ?res)"
      using p pure d_eq res_eq by (simp add: read_dict_Cons)
    show ?thesis
      using run r pure_step
      by (intro exI [of _ "e1 @ e2"] exI [of _ r]) (simp split: sum.splits)
  qed
qed

text \<open>
  C10: run on a store in which every input histogram's arrays exist, the normaliser only
  adds arrays to the store: the store before the call is a prefix of the store after it,
  so every input histogram reads the same bin centers and counts afterwards, whether the
  call returns or raises.  What it returns, read through the new store, is what
  \<open>converge_to_zero_dvh\<close> computes from the input's values.
\<close>

theorem converge_st_frame:
  fixes dict_dvh :: "('k, 'a ref_hist_scheme) dict"
  assumes "\<forall>(roi, dvh) \<in> set dict_dvh. bincenters_ref dvh < length s \<and> counts_ref dvh < length s"
  shows "case converge_to_zero_dvh_st dict_dvh s of
           (r, s') \<Rightarrow>
             take (length s) s' = s \<and> read_dict s' dict_dvh = read_dict s dict_dvh \<and>
             (case r of
                Inl e \<Rightarrow> converge_to_zero_dvh (read_dict s dict_dvh) = Inl e
              | Inr res \<Rightarrow> converge_to_zero_dvh (read_dict s dict_dvh) = Inr (read_res s' res))"
proof -
  let ?s0 = "s @ [replicate 3 0]"
  have d_refs: "\<forall>(k, h) \<in> set dict_dvh. bincenters_ref h < length ?s0 \<and> counts_ref h < length ?s0"
    using assms by auto
  let ?nil = "[] :: ('k, res_roi_ref) dict"
  have res_refs: "\<forall>(k, h) \<in> set ?nil.
      res_bincenters_ref h < length ?s0 \<and> res_counts_ref h < length ?s0"
    by simp
  have z: "length s < length ?s0" "deref ?s0 (length s) = replicate 3 0"
    by (simp_all add: deref_def)
  from converge_loop_st_read [OF d_refs res_refs z]
  obtain ext r where run: "converge_loop_st (length s) dict_dvh ?nil ?s0 = (r, ?s0 @ ext)"
    and r: "case r of
              Inl e \<Rightarrow> converge_loop (read_dict ?s0 dict_dvh) (read_res ?s0 ?nil) = Inl e
            | Inr out \<Rightarrow>
                converge_loop (read_dict ?s0 dict_dvh) (read_res ?s0 ?nil)
                  = Inr (read_res (?s0 @ ext) out)"
    by blast
  have call: "converge_to_zero_dvh_st dict_dvh s = (r, s @ ([replicate 3 0] @ ext))"
    using run by (simp add: converge_to_zero_dvh_st_def np_array_def alloc_def)
  have same: "read_dict (s @ ([replicate 3 0] @ ext)) dict_dvh = read_dict s dict_dvh"
    using assms by (rule read_dict_append)
  have same0: "read_dict ?s0 dict_dvh = read_dict s dict_dvh"
    using assms by (rule read_dict_append)
  show ?thesis
    using call same r same0
    by (simp add: converge_to_zero_dvh_def read_res_Nil split: sum.splits)
qed

theorem converge_st_frame_witness:
  "converge_to_zero_dvh_st [(2::int, \<lparr>bincenters_ref = 0, counts_ref = 1\<rparr>)] [[0, 10], [2, 1]]
     = (Inr [(2, \<lparr>res_bincenters_ref = 6, res_counts_ref = 9\<rparr>)],
        [[0, 10], [2, 1], [0, 0, 0], [10, 11, 12], [0, 10], [0, 10, 10, 11, 12],
         [0, 10, 10, 11, 12], [2, 1], [0, 0, 0], [2, 1, 0, 0, 0]])
   \<and> converge_to_zero_dvh [(2::int, \<lparr>bincenters = [0, 10], counts = [2, 1]\<rparr>)]
     = Inr [(2, \<lparr>res_bincenters = [0, 10, 10, 11, 12], res_counts = [2, 1, 0, 0, 0]\<rparr>)]"
proof -
  let ?d = "[(2::int, \<lparr>bincenters_ref = 0, counts_ref = 1\<rparr>)]"
  let ?s = "[[0, 10], [2, 1 :: real]]"
  have refs: "\<forall>(roi, dvh) \<in> set ?d. bincenters_ref dvh < length ?s \<and> counts_ref dvh < length ?s"
    by simp
  have run: "converge_to_zero_dvh_st ?d ?s
     = (Inr [(2, \<lparr>res_bincenters_ref = 6, res_counts_ref = 9\<rparr>)],
        [[0, 10], [2, 1], [0, 0, 0], [10, 11, 12], [0, 10], [0, 10, 10, 11, 12],
         [0, 10, 10, 11, 12], [2, 1], [0, 0, 0], [2, 1, 0, 0, 0]])"
    by (simp add: converge_to_zero_dvh_st_def converge_body_st_def upt_3 np_array_def
        flatten_def concatenate_def alloc_def deref_def Let_def numeral_3_eq_3)
  from converge_st_frame [OF refs] show ?thesis
    unfolding run by (simp add: read_dict_def read_hist_def read_res_def read_res_roi_def deref_def)
qed

section \<open>Properties of get_roi_info\<close>

lemma get_roi_info_loop_keys:
  "fst ` set (get_roi_info_loop seq acc) = fst ` set acc \<union> ROINumber ` set seq"
  by (induction seq arbitrary: acc) (auto simp: dom_update)

lemma get_roi_info_loop_distinct:
  "distinct (map fst acc) \<Longrightarrow> distinct (map fst (get_roi_info_loop seq acc))"
  by (induction seq arbitrary: acc) (auto simp: distinct_update)

lemma get_roi_info_loop_other:
  "k \<notin> ROINumber ` set seq \<Longrightarrow> map_of (get_roi_info_loop seq acc) k = map_of acc k"
  by (induction seq arbitrary: acc) (auto simp: update_conv')

lemma get_roi_info_loop_append:
  "get_roi_info_loop (xs @ ys) acc = get_roi_info_loop ys (get_roi_info_loop xs acc)"
  by (induction xs arbitrary: acc) auto

lemma get_roi_info_loop_fresh:
  "distinct (map ROINumber seq) \<Longrightarrow> ROINumber ` set seq \<inter> fst ` set acc = {} \<Longrightarrow>
     get_roi_info_loop seq acc = acc @ map (\<lambda>s. (ROINumber s, dict_temp_of s)) seq"
proof (induction seq arbitrary: acc)
  case Nil
  then show ?case by simp
next
  case (Cons s seq)
  have "ROINumber s \<notin> fst ` set acc" using Cons.prems(2) by auto
  then have upd: "AList.update (ROINumber s) (dict_temp_of s) acc = acc @ [(ROINumber s, dict_temp_of s)]"
    by (rule update_fresh)
  have "ROINumber ` set seq \<inter> fst ` set (acc @ [(ROINumber s, dict_temp_of s)]) = {}"
    using Cons.prems by auto
  moreover have "distinct (map ROINumber seq)" using Cons.prems(1) by simp
  ultimately show ?case using Cons.IH upd by simp
qed

text \<open>
  C9: the result has each ROI number of the sequence as a key, once.  When the ROI
  numbers of the sequence are all different there is one entry per element, in the
  order of the sequence.  When a number occurs more than once, its entry holds the
  values of the last element that carries it.
\<close>

theorem get_roi_info_last_wins:
  "distinct (map fst (get_roi_info ds_rtss))
   \<and> set (map fst (get_roi_info ds_rtss)) = ROINumber ` set (StructureSetROISequence ds_rtss)
   \<and> (distinct (map ROINumber (StructureSetROISequence ds_rtss)) \<longrightarrow>
        get_roi_info ds_rtss
          = map (\<lambda>s. (ROINumber s, dict_temp_of s)) (StructureSetROISequence ds_rtss))
   \<and> (\<forall>before s after.
        StructureSetROISequence ds_rtss = before @ s # after
          \<and> ROINumber s \<notin> ROINumber ` set after \<longrightarrow>
        map_of (get_roi_info ds_rtss) (ROINumber s) = Some (dict_temp_of s))"
proof (intro conjI allI impI)
  show "distinct (map fst (get_roi_info ds_rtss))"
    by (simp add: get_roi_info_def get_roi_info_loop_distinct)
  show "set (map fst (get_roi_info ds_rtss)) = ROINumber ` set (StructureSetROISequence ds_rtss)"
    by (simp add: get_roi_info_def get_roi_info_loop_keys)
  show "get_roi_info ds_rtss = map (\<lambda>s. (ROINumber s, dict_temp_of s)) (StructureSetROISequence ds_rtss)"
    if "distinct (map ROINumber (StructureSetROISequence ds_rtss))"
    using that by (simp add: get_roi_info_def get_roi_info_loop_fresh)
  show "map_of (get_roi_info ds_rtss) (ROINumber s) = Some (dict_temp_of s)"
    if "StructureSetROISequence ds_rtss = before @ s # after \<and> ROINumber s \<notin> ROINumber ` set after"
    for before s after
    using that
    by (simp add: get_roi_info_def get_roi_info_loop_append get_roi_info_loop_other update_conv')
qed

theorem get_roi_info_last_wins_witness:
  "map_of (get_roi_info \<lparr>StructureSetROISequence =
      [\<lparr>ROINumber = 1, ReferencedFrameOfReferenceUID = ''u1'', ROIName = ''PTV'',
        ROIGenerationAlgorithm = ''MANUAL''\<rparr>,
       \<lparr>ROINumber = 2, ReferencedFrameOfReferenceUID = ''u1'', ROIName = ''CORD'',
        ROIGenerationAlgorithm = ''MANUAL''\<rparr>,
       \<lparr>ROINumber = 1, ReferencedFrameOfReferenceUID = ''u2'', ROIName = ''GTV'',
        ROIGenerationAlgorithm = ''AUTOMATIC''\<rparr>]\<rparr>) 1
   = Some \<lparr>uid = ''u2'', roi_name = ''GTV'', algorithm = ''AUTOMATIC''\<rparr>"
proof -
  let ?a = "\<lparr>ROINumber = 1, ReferencedFrameOfReferenceUID = ''u1'', ROIName = ''PTV'',
        ROIGenerationAlgorithm = ''MANUAL''\<rparr>"
  let ?b = "\<lparr>ROINumber = 2, ReferencedFrameOfReferenceUID = ''u1'', ROIName = ''CORD'',
        ROIGenerationAlgorithm = ''MANUAL''\<rparr>"
  let ?c = "\<lparr>ROINumber = 1, ReferencedFrameOfReferenceUID = ''u2'', ROIName = ''GTV'',
        ROIGenerationAlgorithm = ''AUTOMATIC''\<rparr>"
  let ?ds = "\<lparr>StructureSetROISequence = [?a, ?b, ?c]\<rparr>"
  have last: "StructureSetROISequence ?ds = [?a, ?b] @ ?c # []
      \<and> ROINumber ?c \<notin> ROINumber ` set []"
    by simp
  from get_roi_info_last_wins [of ?ds]
  have "\<forall>before s after.
      StructureSetROISequence ?ds = before @ s # after
        \<and> ROINumber s \<notin> ROINumber ` set after \<longrightarrow>
      map_of (get_roi_info ?ds) (ROINumber s) = Some (dict_temp_of s)"
    by (elim conjE)
  then have "map_of (get_roi_info ?ds) (ROINumber ?c) = Some (dict_temp_of ?c)"
    using last by blast
  then show ?thesis by (simp add: dict_temp_of_def)
qed

section \<open>Properties of calc_dvhs\<close>

lemma roi_list_loop_eq: "roi_list_loop d acc = acc @ map fst d"
  by (induction d acc rule: roi_list_loop.induct) auto

lemma multi_get_dvhs_eq:
  "multi_get_dvhs get_dvh rtss dose roi dose_limit = [(roi, get_dvh rtss dose roi dose_limit)]"
  by (simp add: multi_get_dvhs_def)

lemma queue_of_perm:
  "set sched \<subseteq> {0..<length msgs} \<Longrightarrow> queue_of msgs sched = map (\<lambda>i. msgs ! i) sched"
  by (induction sched) (auto simp: queue_of_def)

lemma collect_loop_enough:
  "length processes \<le> length queue \<Longrightarrow>
     collect_loop processes queue acc
       = Some (fold (\<lambda>dvh d. dict_update d dvh) (take (length processes) queue) acc)"
  by (induction processes queue acc rule: collect_loop.induct) auto

lemma fold_single_updates:
  "fold (\<lambda>dvh d. dict_update d dvh) (map (\<lambda>k. [(k, g k)]) ks) acc
     = fold (\<lambda>k. AList.update k (g k)) ks acc"
  by (induction ks arbitrary: acc) (auto simp: dict_update_def)

lemma fold_update_keys:
  "fst ` set (fold (\<lambda>k. AList.update k (g k)) ks acc) = fst ` set acc \<union> set ks"
  by (induction ks arbitrary: acc) (auto simp: dom_update)

lemma fold_update_distinct:
  "distinct (map fst acc) \<Longrightarrow> distinct (map fst (fold (\<lambda>k. AList.update k (g k)) ks acc))"
  by (induction ks arbitrary: acc) (auto simp: distinct_update)

lemma fold_update_map_of:
  "map_of (fold (\<lambda>k. AList.update k (g k)) ks acc) k
     = (if k \<in> set ks then Some (g k) else map_of acc k)"
  by (induction ks arbitrary: acc) (auto simp: update_conv')

lemma calc_dvhs_run:
  assumes "distinct sched" and "set sched = {0..<length dict_roi}"
  shows "calc_dvhs get_dvh sched rtss rtdose dict_roi dose_limit
           = Some (fold (\<lambda>k. AList.update k (get_dvh rtss rtdose k None))
                     (map (\<lambda>i. map fst dict_roi ! i) sched) [])"
proof -
  let ?g = "\<lambda>k. get_dvh rtss rtdose k None"
  let ?ks = "map fst dict_roi"
  let ?msgs = "map (\<lambda>i. [(?ks ! i, ?g (?ks ! i))]) [0..<length ?ks]"
  have len: "length sched = length dict_roi"
    using assms distinct_card [of sched] by simp
  have q: "queue_of ?msgs sched = map (\<lambda>k. [(k, ?g k)]) (map (\<lambda>i. ?ks ! i) sched)"
    using assms(2) by (simp add: queue_of_perm comp_def)
  have qlen: "length (queue_of ?msgs sched) = length ?msgs"
    unfolding q by (simp add: len)
  have "collect_loop ?msgs (queue_of ?msgs sched) []
          = Some (fold (\<lambda>dvh d. dict_update d dvh) (take (length ?msgs) (queue_of ?msgs sched)) [])"
    by (rule collect_loop_enough) (simp only: qlen order_refl)
  also have "take (length ?msgs) (queue_of ?msgs sched) = queue_of ?msgs sched"
    by (simp only: qlen [symmetric] take_all order_refl)
  finally have "collect_loop ?msgs (queue_of ?msgs sched) []
      = Some (fold (\<lambda>k. AList.update k (?g k)) (map (\<lambda>i. ?ks ! i) sched) [])"
    unfolding q fold_single_updates .
  then show ?thesis
    by (simp add: calc_dvhs_def roi_list_loop_eq multi_get_dvhs_eq Let_def)
qed

lemma sched_keys:
  assumes "set sched = {0..<length ks}"
  shows "set (map (\<lambda>i. ks ! i) sched) = set ks"
proof -
  have "set (map (\<lambda>i. ks ! i) sched) = (\<lambda>i. ks ! i) ` {0..<length ks}"
    using assms by simp
  also have "\<dots> = set ks"
    by (metis map_nth set_map set_upt)
  finally show ?thesis .
qed

text \<open>
  C2: for a dict of N ROI ids and any order in which the N workers deliver (each worker
  once: a run without faults), \<open>calc_dvhs\<close> returns, and the dict it returns has
  exactly N entries, no key twice, and the requested ROI ids as its keys.
\<close>

theorem calc_dvhs_keys:
  assumes "distinct (map fst dict_roi)"
    and "distinct sched" and "set sched = {0..<length dict_roi}"
  shows "\<exists>dict_dvh. calc_dvhs get_dvh sched rtss rtdose dict_roi dose_limit = Some dict_dvh
           \<and> length dict_dvh = length dict_roi
           \<and> distinct (map fst dict_dvh)
           \<and> set (map fst dict_dvh) = set (map fst dict_roi)"
proof -
  let ?g = "\<lambda>k. get_dvh rtss rtdose k None"
  let ?r = "fold (\<lambda>k. AList.update k (?g k)) (map (\<lambda>i. map fst dict_roi ! i) sched) []"
  have run: "calc_dvhs get_dvh sched rtss rtdose dict_roi dose_limit = Some ?r"
    using assms(2,3) by (rule calc_dvhs_run)
  have "fst ` set ?r = set (map (\<lambda>i. map fst dict_roi ! i) sched)"
    by (simp add: fold_update_keys)
  also have "\<dots> = set (map fst dict_roi)"
    using assms(3) by (intro sched_keys) simp
  finally have keys: "set (map fst ?r) = set (map fst dict_roi)" by simp
  have dist: "distinct (map fst ?r)"
    by (rule fold_update_distinct) simp
  have "length ?r = card (set (map fst ?r))"
    using dist distinct_card [of "map fst ?r"] by simp
  also have "\<dots> = length dict_roi"
    using keys assms(1) distinct_card [of "map fst dict_roi"] by simp
  finally show ?thesis using run keys dist by blast
qed

theorem calc_dvhs_keys_witness:
  "\<exists>dict_dvh.
     calc_dvhs (\<lambda>rtss rtdose roi lim. [real_of_int roi, 0]) [2, 0, 1] () ()
        [(5::int, ''PTV''), (7, ''CORD''), (9, ''LUNG'')] (None :: real option) = Some dict_dvh
     \<and> length dict_dvh = 3 \<and> distinct (map fst dict_dvh) \<and> set (map fst dict_dvh) = {5, 7, 9}"
proof -
  let ?d = "[(5::int, ''PTV''), (7, ''CORD''), (9, ''LUNG'')]"
  have keys: "distinct (map fst ?d)" by simp
  have once: "distinct [2, 0, 1 :: nat]" by simp
  have every: "set [2, 0, 1 :: nat] = {0..<length ?d}" by auto
  from calc_dvhs_keys
    [OF keys once every, where get_dvh = "\<lambda>rtss rtdose roi lim. [real_of_int roi, 0]"
       and rtss = "()" and rtdose = "()" and dose_limit = "None :: real option"]
  show ?thesis by (auto simp: numeral_3_eq_3)
qed

text \<open>
  C8: two input dicts with the same ROI ids, in any order and with any order of
  delivery, give results with the same associations from ROI id to histogram.
\<close>

theorem calc_dvhs_order_independent:
  assumes "distinct (map fst dict_roi)" and "distinct (map fst dict_roi')"
    and "set (map fst dict_roi) = set (map fst dict_roi')"
    and "distinct sched" and "set sched = {0..<length dict_roi}"
    and "distinct sched'" and "set sched' = {0..<length dict_roi'}"
  shows "\<exists>dict_dvh dict_dvh'.
           calc_dvhs get_dvh sched rtss rtdose dict_roi dose_limit = Some dict_dvh
           \<and> calc_dvhs get_dvh sched' rtss rtdose dict_roi' dose_limit = Some dict_dvh'
           \<and> map_of dict_dvh = map_of dict_dvh' \<and> set dict_dvh = set dict_dvh'"
proof -
  let ?g = "\<lambda>k. get_dvh rtss rtdose k None"
  let ?r = "fold (\<lambda>k. AList.update k (?g k)) (map (\<lambda>i. map fst dict_roi ! i) sched) []"
  let ?r' = "fold (\<lambda>k. AList.update k (?g k)) (map (\<lambda>i. map fst dict_roi' ! i) sched') []"
  have run: "calc_dvhs get_dvh sched rtss rtdose dict_roi dose_limit = Some ?r"
    using assms(4,5) by (rule calc_dvhs_run)
  have run': "calc_dvhs get_dvh sched' rtss rtdose dict_roi' dose_limit = Some ?r'"
    using assms(6,7) by (rule calc_dvhs_run)
  have ks: "set (map (\<lambda>i. map fst dict_roi ! i) sched) = set (map fst dict_roi)"
    using sched_keys [of sched "map fst dict_roi"] assms(5) by simp
  have ks': "set (map (\<lambda>i. map fst dict_roi' ! i) sched') = set (map fst dict_roi')"
    using sched_keys [of sched' "map fst dict_roi'"] assms(7) by simp
  have "map_of ?r k = map_of ?r' k" for k
    unfolding fold_update_map_of ks ks' using assms(3) by simp
  then have maps: "map_of ?r = map_of ?r'" by (rule ext)
  have "distinct (map fst ?r)" "distinct (map fst ?r')"
    by (rule fold_update_distinct, simp)+
  then have "set ?r = set ?r'"
    using maps by (simp add: map_of_inject_set)
  then show ?thesis using run run' maps by blast
qed

theorem calc_dvhs_order_independent_witness:
  "\<exists>dict_dvh dict_dvh'.
     calc_dvhs (\<lambda>rtss rtdose roi lim. [real_of_int roi, 0]) [2, 0, 1] () ()
        [(5::int, ''PTV''), (7, ''CORD''), (9, ''LUNG'')] (None :: real option) = Some dict_dvh
     \<and> calc_dvhs (\<lambda>rtss rtdose roi lim. [real_of_int roi, 0]) [1, 2, 0] () ()
        [(9::int, ''LUNG''), (5, ''PTV''), (7, ''CORD'')] (None :: real option) = Some dict_dvh'
     \<and> map_of dict_dvh = map_of dict_dvh' \<and> set dict_dvh = set dict_dvh'"
proof -
  let ?d = "[(5::int, ''PTV''), (7, ''CORD''), (9, ''LUNG'')]"
  let ?d' = "[(9::int, ''LUNG''), (5, ''PTV''), (7, ''CORD'')]"
  have keys: "distinct (map fst ?d)" and keys': "distinct (map fst ?d')" by simp_all
  have same: "set (map fst ?d) = set (map fst ?d')" by auto
  have once: "distinct [2, 0, 1 :: nat]" and once': "distinct [1, 2, 0 :: nat]" by simp_all
  have every: "set [2, 0, 1 :: nat] = {0..<length ?d}"
    and every': "set [1, 2, 0 :: nat] = {0..<length ?d'}" by auto
  from calc_dvhs_order_independent
    [OF keys keys' same once every once' every',
       where get_dvh = "\<lambda>rtss rtdose roi lim. [real_of_int roi, 0]"
       and rtss = "()" and rtdose = "()" and dose_limit = "None :: real option"]
  show ?thesis .
qed

section \<open>Properties of dvh2csv\<close>

subsection \<open>The two loops\<close>

lemma blocks_dvd: "10 dvd n \<Longrightarrow> (n + 9) div 10 = n div (10::nat)"
  by (auto simp: dvd_def)

lemma blocks_ndvd: "\<not> 10 dvd n \<Longrightarrow> (n + 9) div 10 = Suc (n div (10::nat))"
proof -
  assume "\<not> 10 dvd n"
  then have r: "1 \<le> n mod 10" by (simp add: dvd_eq_mod_eq_0)
  define q where "q = n div 10"
  define r where "r = n mod 10"
  have n: "n = q * 10 + r" and r1: "1 \<le> r" and r10: "r < 10"
    using r by (simp_all add: q_def r_def)
  have "n + 9 = (r - 1) + Suc q * 10"
    using n r1 by simp
  then have "(n + 9) div 10 = ((r - 1) + Suc q * 10) div 10"
    by (simp only:)
  also have "\<dots> = Suc q + (r - 1) div 10"
    by (rule div_mult_self1) simp
  also have "(r - 1) div 10 = 0"
    using r10 by simp
  finally show ?thesis by (simp add: q_def)
qed

lemma range_step_blocks: "range_step n 10 = map (\<lambda>j. j * 10) [0..<(n + 9) div 10]"
  by (simp add: range_step_def add.commute)

lemma range_step_filter: "range_step n 10 = filter (\<lambda>k. 10 dvd k) [0..<n]"
proof (induction n)
  case 0
  show ?case by (simp add: range_step_def)
next
  case (Suc n)
  have S: "(Suc n + 9) div 10 = Suc (n div 10)"
    by simp
  show ?case
  proof (cases "10 dvd n")
    case True
    have "range_step (Suc n) 10 = range_step n 10 @ [n]"
      unfolding range_step_blocks S blocks_dvd [OF True] using True by simp
    then show ?thesis using Suc True by simp
  next
    case False
    have "range_step (Suc n) 10 = range_step n 10"
      unfolding range_step_blocks S blocks_ndvd [OF False] ..
    then show ?thesis using Suc False by simp
  qed
qed

lemma range_step_sampled: "range_step (length dose) 10 = sampled_indices dose"
  by (simp add: range_step_filter sampled_indices_def)

lemma sampled_indices_blocks:
  "sampled_indices dose = map (\<lambda>j. j * 10) [0..<(length dose + 9) div 10]"
  using range_step_sampled [of dose] by (simp only: range_step_blocks)

lemma length_samples: "length (samples dose) = (length dose + 9) div 10"
  by (simp add: samples_def sampled_indices_blocks)

lemma sample_loop_eq:
  "sample_loop dose js (row, mx) = (row @ map (\<lambda>i. Num (dose ! i)) js, fold max js mx)"
  by (induction js arbitrary: row mx) (auto simp: max_def)

lemma rows_loop_eq:
  "rows_loop d patient_id (rows, mx) =
     (rows @ map (\<lambda>(roi, dvh). row_of patient_id dvh) d,
      fold max (concat (map (\<lambda>(roi, dvh). sampled_indices (relative_volume_counts dvh)) d)) mx)"
  by (induction d arbitrary: rows mx)
    (auto simp: sample_loop_eq range_step_sampled row_of_def samples_def comp_def Let_def)

lemma fold_max_Max: "fold max xs (m::nat) = Max (insert m (set xs))"
  using Max.set_eq_fold [of m xs] by simp

lemma max_roi_dose_eq:
  "snd (rows_loop d patient_id ([], 0)) = global_max_sampled_index d"
  by (simp add: rows_loop_eq fold_max_Max global_max_sampled_index_def case_prod_unfold)

lemma csv_header_eq:
  "csv_header_of (snd (rows_loop d patient_id ([], 0))) = spec_header d"
  by (simp add: max_roi_dose_eq csv_header_of_def spec_header_def range_step_filter)

subsection \<open>Widths\<close>

lemma fold_max_init: "fold max xs (m::nat) = max m (fold max xs 0)"
proof (induction xs arbitrary: m)
  case Nil
  show ?case by simp
next
  case (Cons x xs)
  have "fold max (x # xs) m = max (max x m) (fold max xs 0)"
    using Cons [of "max x m"] by simp
  moreover have "fold max (x # xs) 0 = max x (fold max xs 0)"
    using Cons [of x] by simp
  ultimately show ?case by (simp add: max.assoc max.left_commute)
qed

lemma fold_max_blocks: "fold max (map (\<lambda>j. j * 10) [0..<b]) m = max m ((b - 1) * (10::nat))"
  by (induction b arbitrary: m) (auto simp: max_def)

lemma fold_max_sampled:
  "fold max (sampled_indices dose) m = max m (((length dose + 9) div 10 - 1) * 10)"
  by (simp only: sampled_indices_blocks fold_max_blocks)

lemma blocks_Nil: "blocks [] = 0"
  by (simp add: blocks_def)

lemma blocks_Cons:
  "blocks ((roi, dvh) # d) = max (length (samples (relative_volume_counts dvh))) (blocks d)"
  using fold_max_init [of _ "length (samples (relative_volume_counts dvh))"]
  by (simp add: blocks_def)

lemma max_roi_dose_blocks:
  "fold max (concat (map (\<lambda>(roi, dvh). sampled_indices (relative_volume_counts dvh)) d)) m
     = max m ((blocks d - 1) * 10)"
proof (induction d arbitrary: m)
  case Nil
  show ?case by (simp add: blocks_Nil)
next
  case (Cons p d)
  obtain roi dvh where p: "p = (roi, dvh)" by (cases p)
  let ?b = "length (samples (relative_volume_counts dvh))"
  have mono: "(max ?b (blocks d) - 1) * 10 = max ((?b - 1) * 10) ((blocks d - 1) * 10)"
    by (cases "?b \<le> blocks d") (auto simp: max_def)
  show ?case
    unfolding p blocks_Cons mono
    by (simp add: Cons.IH fold_max_sampled length_samples max.assoc)
qed

lemma global_max_blocks: "global_max_sampled_index d = (blocks d - 1) * 10"
  using max_roi_dose_eq [of d "[]"] max_roi_dose_blocks [of d 0]
  by (simp add: rows_loop_eq)

lemma length_row_of:
  "length (row_of patient_id dvh) = 3 + length (samples (relative_volume_counts dvh))"
  by (simp add: row_of_def)

lemma width_blocks:
  "d \<noteq> [] \<Longrightarrow>
     fold max (map length (map (\<lambda>(roi, dvh). row_of patient_id dvh) d)) 0 = 3 + blocks d"
proof (induction d rule: list_nonempty_induct)
  case (single p)
  obtain roi dvh where p: "p = (roi, dvh)" by (cases p)
  show ?case by (simp add: p length_row_of blocks_def)
next
  case (cons p d)
  obtain roi dvh where p: "p = (roi, dvh)" by (cases p)
  have "fold max (map length (map (\<lambda>(roi, dvh). row_of patient_id dvh) (p # d))) 0
      = max (length (row_of patient_id dvh))
          (fold max (map length (map (\<lambda>(roi, dvh). row_of patient_id dvh) d)) 0)"
    using fold_max_init [of _ "length (row_of patient_id dvh)"] by (simp add: p)
  then show ?case
    unfolding cons.IH p blocks_Cons by (simp add: length_row_of)
qed

lemma length_csv_header: "length (csv_header_of m) = 4 + m div 10"
  by (simp add: csv_header_of_def range_step_blocks)

lemma length_spec_header: "length (spec_header d) = 3 + max 1 (blocks d)"
  using csv_header_eq [of d "[]"] length_csv_header [of "global_max_sampled_index d"]
  by (simp add: max_roi_dose_eq global_max_blocks max_def)

lemma blocks_zero: "blocks d = 0 \<longleftrightarrow> (\<forall>(roi, dvh) \<in> set d. relative_volume_counts dvh = [])"
proof (induction d)
  case Nil
  show ?case by (simp add: blocks_Nil)
next
  case (Cons p d)
  obtain roi dvh where p: "p = (roi, dvh)" by (cases p)
  let ?b = "length (samples (relative_volume_counts dvh))"
  have b: "?b = 0 \<longleftrightarrow> relative_volume_counts dvh = []"
    by (cases "relative_volume_counts dvh") (simp_all add: length_samples)
  have "max ?b (blocks d) = 0 \<longleftrightarrow> ?b = 0 \<and> blocks d = 0"
    by (auto simp: max_def)
  then show ?case
    unfolding p blocks_Cons using Cons b by simp
qed

subsection \<open>The data frame and the file\<close>

lemma reindex_rows:
  "\<forall>r \<in> set rows. r \<noteq> [] \<Longrightarrow>
     map (\<lambda>(i, r). i # r) (zip (map (\<lambda>r. r ! 0) rows) (map (drop_nth 0) rows)) = rows"
proof (induction rows)
  case Nil
  show ?case by simp
next
  case (Cons r rows)
  then obtain c cs where "r = c # cs" by (cases r) auto
  then show ?case using Cons by (simp add: drop_nth_def)
qed

lemma spec_header_Cons:
  "spec_header d = ''Patient ID'' # tl (spec_header d)"
  by (simp add: spec_header_def)

lemma line_eq:
  "map fill_cell (map round_cell (row_of patient_id dvh @ replicate k NaN))
     = [Str patient_id, Str (name dvh), Num (np_round2 (volume dvh))]
         @ map (\<lambda>x. Num (np_round2 x)) (samples (relative_volume_counts dvh))
         @ replicate k (Num 0)"
  by (simp add: row_of_def comp_def)

lemma dvh2csv_run:
  assumes "d = [] \<or> blocks d \<noteq> 0"
  shows "dvh2csv d path csv_name patient_id =
     Inr \<lparr>file_path = path @ csv_name @ ''.csv'',
          header = spec_header d,
          lines = map (\<lambda>(roi, dvh). spec_line patient_id (length (spec_header d)) dvh) d\<rparr>"
proof -
  let ?rows = "map (\<lambda>(roi, dvh). row_of patient_id dvh) d"
  let ?w = "length (spec_header d)"
  let ?data = "map (\<lambda>r. r @ replicate (?w - length r) NaN) ?rows"
  let ?final = "map (map fill_cell) (map (map round_cell) ?data)"
  have loop: "rows_loop d patient_id ([], 0) = (?rows, global_max_sampled_index d)"
    using max_roi_dose_eq [of d patient_id] by (simp add: rows_loop_eq)
  have hdr: "csv_header_of (global_max_sampled_index d) = spec_header d"
    using csv_header_eq [of d patient_id] by (simp add: loop)
  have width: "d \<noteq> [] \<Longrightarrow> fold max (map length ?rows) 0 = ?w"
    using assms width_blocks [of d patient_id] by (simp add: length_spec_header max_def)
  have df: "DataFrame ?rows (spec_header d) =
      Inr \<lparr>index_name = None, index_cells = [], columns = spec_header d, data = ?data\<rparr>"
    using width by (cases "d = []") (simp_all add: DataFrame_def Let_def)
  have idx: "index_of ''Patient ID'' (spec_header d) = Some 0"
    by (subst spec_header_Cons) simp
  have si: "set_index ''Patient ID''
        (fillna (round2 \<lparr>index_name = None, index_cells = [], columns = spec_header d, data = ?data\<rparr>))
      = Inr \<lparr>index_name = Some ''Patient ID'', index_cells = map (\<lambda>r. r ! 0) ?final,
             columns = tl (spec_header d), data = map (drop_nth 0) ?final\<rparr>"
    by (simp add: set_index_def fillna_def round2_def idx drop_nth_def drop_Suc)
  have nonempty: "\<forall>r \<in> set ?final. r \<noteq> []"
    by (auto simp: row_of_def)
  have lines: "?final = map (\<lambda>(roi, dvh). spec_line patient_id ?w dvh) d"
    by (simp add: row_of_def spec_line_def comp_def case_prod_unfold numeral_3_eq_3)
  have "dvh2csv d path csv_name patient_id =
      (case DataFrame ?rows (spec_header d) of
         Inl e \<Rightarrow> Inl e
       | Inr df \<Rightarrow>
           (case set_index ''Patient ID'' (fillna (round2 df)) of
              Inl e \<Rightarrow> Inl e
            | Inr pd_df_csv \<Rightarrow> Inr (to_csv (path @ csv_name @ ''.csv'') pd_df_csv)))"
    by (simp only: dvh2csv_def Let_def loop hdr prod.case)
  also have "\<dots> = Inr (to_csv (path @ csv_name @ ''.csv'')
      \<lparr>index_name = Some ''Patient ID'', index_cells = map (\<lambda>r. r ! 0) ?final,
        columns = tl (spec_header d), data = map (drop_nth 0) ?final\<rparr>)"
    by (simp only: df si sum.case)
  also have "\<dots> = Inr \<lparr>file_path = path @ csv_name @ ''.csv'',
      header = ''Patient ID'' # tl (spec_header d),
      lines = map (\<lambda>(i, r). i # r) (zip (map (\<lambda>r. r ! 0) ?final) (map (drop_nth 0) ?final))\<rparr>"
    by (simp only: to_csv_def dataframe.simps option.case)
  finally have "dvh2csv d path csv_name patient_id =
      Inr \<lparr>file_path = path @ csv_name @ ''.csv'', header = spec_header d, lines = ?final\<rparr>"
    unfolding reindex_rows [OF nonempty] spec_header_Cons [symmetric] .
  then show ?thesis
    unfolding lines .
qed

lemma dvh2csv_fail:
  assumes "d \<noteq> []" and "blocks d = 0"
  shows "dvh2csv d path csv_name patient_id = Inl ValueError"
proof -
  let ?rows = "map (\<lambda>(roi, dvh). row_of patient_id dvh) d"
  have loop: "rows_loop d patient_id ([], 0) = (?rows, global_max_sampled_index d)"
    using max_roi_dose_eq [of d patient_id] by (simp add: rows_loop_eq)
  have hdr: "csv_header_of (global_max_sampled_index d) = spec_header d"
    using csv_header_eq [of d patient_id] by (simp add: loop)
  have "fold max (map length ?rows) 0 = 3" "length (spec_header d) = 4"
    using assms width_blocks [of d patient_id] by (simp_all add: length_spec_header)
  then have "DataFrame ?rows (spec_header d) = Inl ValueError"
    using assms(1) by (simp add: DataFrame_def)
  then show ?thesis
    by (simp only: dvh2csv_def Let_def loop hdr prod.case sum.case)
qed

lemma samples_le_blocks:
  "(roi, dvh) \<in> set d \<Longrightarrow> length (samples (relative_volume_counts dvh)) \<le> blocks d"
proof (induction d)
  case Nil
  then show ?case by simp
next
  case (Cons p d)
  obtain k h where p: "p = (k, h)" by (cases p)
  show ?case using Cons unfolding p blocks_Cons by auto
qed

lemma np_round2_grid: "\<exists>k::int. np_round2 x = of_int k / 100"
  by (auto simp: np_round2_def)

lemma spec_line_props:
  assumes "3 + length (samples (relative_volume_counts dvh)) \<le> w"
  shows "length (spec_line patient_id w dvh) = w"
    and "NaN \<notin> set (spec_line patient_id w dvh)"
    and "Num x \<in> set (spec_line patient_id w dvh) \<Longrightarrow> \<exists>k::int. x = of_int k / 100"
    and "3 + length (samples (relative_volume_counts dvh)) \<le> j \<Longrightarrow> j < w \<Longrightarrow>
           spec_line patient_id w dvh ! j = Num 0"
proof -
  show "length (spec_line patient_id w dvh) = w"
    using assms by (simp add: spec_line_def)
  show "NaN \<notin> set (spec_line patient_id w dvh)"
    by (auto simp: spec_line_def)
  show "\<exists>k::int. x = of_int k / 100" if "Num x \<in> set (spec_line patient_id w dvh)"
  proof -
    from that consider "x = np_round2 (volume dvh)"
      | y where "x = np_round2 y" | "x = 0"
      by (auto simp: spec_line_def)
    then show ?thesis
    proof cases
      case 3
      then have "x = of_int 0 / 100" by simp
      then show ?thesis by blast
    qed (use np_round2_grid in blast)+
  qed
  show "spec_line patient_id w dvh ! j = Num 0"
    if "3 + length (samples (relative_volume_counts dvh)) \<le> j" and "j < w"
  proof -
    let ?n = "length (samples (relative_volume_counts dvh))"
    have "spec_line patient_id w dvh
        = ([Str patient_id, Str (name dvh), Num (np_round2 (volume dvh))]
            @ map (\<lambda>x. Num (np_round2 x)) (samples (relative_volume_counts dvh)))
          @ replicate (w - (3 + ?n)) (Num 0)"
      by (simp add: spec_line_def)
    then show ?thesis using that by (simp only: nth_append) simp
  qed
qed

lemma upt_2: "[0..<2] = [0, Suc 0]"
  by (simp add: upt_rec numeral_2_eq_2)

lemma csv_header_of_20:
  "csv_header_of 20 = [''Patient ID'', ''ROI'', ''Volume (mL)'', ''0cGy'', ''10cGy'', ''20cGy'']"
  by (simp add: csv_header_of_def range_step_def upt_3)

lemma blocks_nonzero:
  "(roi, dvh) \<in> set d \<Longrightarrow> relative_volume_counts dvh \<noteq> [] \<Longrightarrow> blocks d \<noteq> 0"
  using blocks_zero [of d] by auto

text \<open>
  C5: the header the exporter builds is \<open>Patient ID\<close>, \<open>ROI\<close>, \<open>Volume (mL)\<close> and then
  one column \<open><k>cGy\<close> for every multiple of 10 from 0 up to the global maximum sampled
  index; when some ROI has a sample, the call returns a file with that header; and a
  single ROI whose \<open>relative_volume.counts\<close> has length 25 gives the dose columns
  \<open>0cGy\<close>, \<open>10cGy\<close>, \<open>20cGy\<close>.
\<close>

theorem dvh2csv_header:
  "csv_header_of (snd (rows_loop dict_dvh patient_id ([], 0))) = spec_header dict_dvh
   \<and> ((\<exists>(roi, dvh) \<in> set dict_dvh. relative_volume_counts dvh \<noteq> []) \<longrightarrow>
        (\<exists>f. dvh2csv dict_dvh path csv_name patient_id = Inr f
           \<and> header f = spec_header dict_dvh))
   \<and> (length (relative_volume_counts dvh) = 25 \<longrightarrow>
        (\<exists>f. dvh2csv [(roi, dvh)] path csv_name patient_id = Inr f
           \<and> header f
              = [''Patient ID'', ''ROI'', ''Volume (mL)'', ''0cGy'', ''10cGy'', ''20cGy'']))"
proof (intro conjI impI)
  show "csv_header_of (snd (rows_loop dict_dvh patient_id ([], 0))) = spec_header dict_dvh"
    by (rule csv_header_eq)
  show "\<exists>f. dvh2csv dict_dvh path csv_name patient_id = Inr f \<and> header f = spec_header dict_dvh"
    if "\<exists>(roi, dvh) \<in> set dict_dvh. relative_volume_counts dvh \<noteq> []"
  proof -
    from that have "blocks dict_dvh \<noteq> 0" using blocks_nonzero by fastforce
    then show ?thesis by (simp add: dvh2csv_run)
  qed
  show "\<exists>f. dvh2csv [(roi, dvh)] path csv_name patient_id = Inr f
          \<and> header f = [''Patient ID'', ''ROI'', ''Volume (mL)'', ''0cGy'', ''10cGy'', ''20cGy'']"
    if len: "length (relative_volume_counts dvh) = 25"
  proof -
    have b: "blocks [(roi, dvh)] = 3"
      using len by (simp add: blocks_def length_samples)
    have "spec_header [(roi, dvh)] = csv_header_of (global_max_sampled_index [(roi, dvh)])"
      using csv_header_eq [of "[(roi, dvh)]" patient_id]
      by (simp only: max_roi_dose_eq)
    also have "\<dots> = csv_header_of 20"
      by (simp add: global_max_blocks b)
    finally have "spec_header [(roi, dvh)]
        = [''Patient ID'', ''ROI'', ''Volume (mL)'', ''0cGy'', ''10cGy'', ''20cGy'']"
      by (simp only: csv_header_of_20)
    moreover have "blocks [(roi, dvh)] \<noteq> 0" using b by simp
    ultimately show ?thesis by (simp add: dvh2csv_run)
  qed
qed

theorem dvh2csv_header_witness:
  "\<exists>f. dvh2csv
          [(1::int, \<lparr>bincenters = [], counts = [], name = ''PTV'', volume = 12,
               relative_volume_counts = replicate 25 4\<rparr>)] ''/tmp/'' ''dvh'' ''P1'' = Inr f
       \<and> header f = [''Patient ID'', ''ROI'', ''Volume (mL)'', ''0cGy'', ''10cGy'', ''20cGy'']"
proof -
  let ?dvh = "\<lparr>bincenters = [], counts = [], name = ''PTV'', volume = 12,
               relative_volume_counts = replicate 25 4\<rparr>"
  have len: "length (relative_volume_counts ?dvh) = 25" by simp
  from dvh2csv_header
    [where dvh = ?dvh and dict_dvh = "[(1::int, ?dvh)]" and roi = "1::int"
       and path = "''/tmp/''" and csv_name = "''dvh''" and patient_id = "''P1''"]
  have "length (relative_volume_counts ?dvh) = 25 \<longrightarrow>
      (\<exists>f. dvh2csv [(1::int, ?dvh)] ''/tmp/'' ''dvh'' ''P1'' = Inr f
         \<and> header f = [''Patient ID'', ''ROI'', ''Volume (mL)'', ''0cGy'', ''10cGy'', ''20cGy''])"
    by (elim conjE)
  then show ?thesis using len by (rule mp)
qed

text \<open>
  C6: for an empty collection and for a collection in which some ROI has a sample the
  call returns a file; and whenever it returns one, the file has a line per ROI, each as
  wide as the header, with no missing cell, every number a multiple of 1/100, and
  \<open>0.0\<close> in every column beyond the ROI's own samples.
\<close>

theorem dvh2csv_table:
  "(dict_dvh = [] \<or> (\<exists>(roi, dvh) \<in> set dict_dvh. relative_volume_counts dvh \<noteq> []) \<longrightarrow>
      (\<exists>f. dvh2csv dict_dvh path csv_name patient_id = Inr f))
   \<and> (\<forall>f. dvh2csv dict_dvh path csv_name patient_id = Inr f \<longrightarrow>
        length (lines f) = length dict_dvh
        \<and> (\<forall>i < length dict_dvh.
             lines f ! i = spec_line patient_id (length (header f)) (snd (dict_dvh ! i)))
        \<and> (\<forall>line \<in> set (lines f).
             length line = length (header f) \<and> NaN \<notin> set line
             \<and> (\<forall>x. Num x \<in> set line \<longrightarrow> (\<exists>k::int. x = of_int k / 100)))
        \<and> (\<forall>i < length dict_dvh. \<forall>j < length (header f).
             3 + length (samples (relative_volume_counts (snd (dict_dvh ! i)))) \<le> j \<longrightarrow>
             lines f ! i ! j = Num 0))"
proof (rule conjI)
  show "dict_dvh = [] \<or> (\<exists>(roi, dvh) \<in> set dict_dvh. relative_volume_counts dvh \<noteq> []) \<longrightarrow>
      (\<exists>f. dvh2csv dict_dvh path csv_name patient_id = Inr f)"
  proof
    assume "dict_dvh = [] \<or> (\<exists>(roi, dvh) \<in> set dict_dvh. relative_volume_counts dvh \<noteq> [])"
    then have "dict_dvh = [] \<or> blocks dict_dvh \<noteq> 0"
      using blocks_nonzero by fastforce
    then show "\<exists>f. dvh2csv dict_dvh path csv_name patient_id = Inr f"
      by (simp add: dvh2csv_run)
  qed
next
  have main: "length (lines f) = length dict_dvh
        \<and> (\<forall>i < length dict_dvh.
             lines f ! i = spec_line patient_id (length (header f)) (snd (dict_dvh ! i)))
        \<and> (\<forall>line \<in> set (lines f).
             length line = length (header f) \<and> NaN \<notin> set line
             \<and> (\<forall>x. Num x \<in> set line \<longrightarrow> (\<exists>k::int. x = of_int k / 100)))
        \<and> (\<forall>i < length dict_dvh. \<forall>j < length (header f).
             3 + length (samples (relative_volume_counts (snd (dict_dvh ! i)))) \<le> j \<longrightarrow>
             lines f ! i ! j = Num 0)"
    if ret: "dvh2csv dict_dvh path csv_name patient_id = Inr f" for f
  proof (intro conjI)
  let ?w = "length (spec_header dict_dvh)"
  have ok: "dict_dvh = [] \<or> blocks dict_dvh \<noteq> 0"
  proof (rule ccontr)
    assume "\<not> (dict_dvh = [] \<or> blocks dict_dvh \<noteq> 0)"
    then have "dvh2csv dict_dvh path csv_name patient_id = Inl ValueError"
      by (simp add: dvh2csv_fail)
    then show False using ret by simp
  qed
  have f: "f = \<lparr>file_path = path @ csv_name @ ''.csv'', header = spec_header dict_dvh,
      lines = map (\<lambda>(roi, dvh). spec_line patient_id ?w dvh) dict_dvh\<rparr>"
    using ret dvh2csv_run [OF ok, of path csv_name patient_id] by simp
  have hdr: "header f = spec_header dict_dvh"
    and lns: "lines f = map (\<lambda>(roi, dvh). spec_line patient_id ?w dvh) dict_dvh"
    by (simp_all add: f)
  have fits: "3 + length (samples (relative_volume_counts dvh)) \<le> ?w"
    if "(roi, dvh) \<in> set dict_dvh" for roi dvh
    using samples_le_blocks [OF that] by (simp add: length_spec_header)
  have nth: "lines f ! i = spec_line patient_id ?w (snd (dict_dvh ! i))"
    if "i < length dict_dvh" for i
    using that by (simp add: lns case_prod_unfold)
  have mem: "(fst (dict_dvh ! i), snd (dict_dvh ! i)) \<in> set dict_dvh"
    if "i < length dict_dvh" for i
    using that by simp
  show "length (lines f) = length dict_dvh"
    by (simp add: lns)
  show "\<forall>i < length dict_dvh.
      lines f ! i = spec_line patient_id (length (header f)) (snd (dict_dvh ! i))"
    using nth by (simp add: hdr)
  show "\<forall>line \<in> set (lines f).
      length line = length (header f) \<and> NaN \<notin> set line
      \<and> (\<forall>x. Num x \<in> set line \<longrightarrow> (\<exists>k::int. x = of_int k / 100))"
  proof
    fix line
    assume "line \<in> set (lines f)"
    then obtain roi dvh where in_d: "(roi, dvh) \<in> set dict_dvh"
      and line: "line = spec_line patient_id ?w dvh"
      by (auto simp: lns)
    show "length line = length (header f) \<and> NaN \<notin> set line
      \<and> (\<forall>x. Num x \<in> set line \<longrightarrow> (\<exists>k::int. x = of_int k / 100))"
      unfolding line hdr
      using spec_line_props(1,2,3) [OF fits [OF in_d], where patient_id = patient_id] by blast
  qed
  show "\<forall>i < length dict_dvh. \<forall>j < length (header f).
      3 + length (samples (relative_volume_counts (snd (dict_dvh ! i)))) \<le> j \<longrightarrow>
      lines f ! i ! j = Num 0"
  proof (intro allI impI)
    fix i j
    assume i: "i < length dict_dvh" and j: "j < length (header f)"
      and far: "3 + length (samples (relative_volume_counts (snd (dict_dvh ! i)))) \<le> j"
    have "spec_line patient_id ?w (snd (dict_dvh ! i)) ! j = Num 0"
      using fits [OF mem [OF i]] far j
      by (intro spec_line_props(4)) (simp_all add: hdr)
    then show "lines f ! i ! j = Num 0"
      by (simp add: nth [OF i])
  qed
qed
  then show "\<forall>f. dvh2csv dict_dvh path csv_name patient_id = Inr f \<longrightarrow>
        length (lines f) = length dict_dvh
        \<and> (\<forall>i < length dict_dvh.
             lines f ! i = spec_line patient_id (length (header f)) (snd (dict_dvh ! i)))
        \<and> (\<forall>line \<in> set (lines f).
             length line = length (header f) \<and> NaN \<notin> set line
             \<and> (\<forall>x. Num x \<in> set line \<longrightarrow> (\<exists>k::int. x = of_int k / 100)))
        \<and> (\<forall>i < length dict_dvh. \<forall>j < length (header f).
             3 + length (samples (relative_volume_counts (snd (dict_dvh ! i)))) \<le> j \<longrightarrow>
             lines f ! i ! j = Num 0)"
    by blast
qed

theorem dvh2csv_table_witness:
  "\<exists>f. dvh2csv
          [(1::int, \<lparr>bincenters = [], counts = [], name = ''PTV'', volume = 12.345,
               relative_volume_counts = [100, 90, 80, 70, 60, 50, 40, 30, 20, 10, 0.125, 0]\<rparr>),
           (2, \<lparr>bincenters = [], counts = [], name = ''CORD'', volume = 3,
               relative_volume_counts = [99.999, 0]\<rparr>)] ''/tmp/'' ''dvh'' ''P1'' = Inr f
       \<and> f = \<lparr>file_path = ''/tmp/dvh.csv'',
              header = [''Patient ID'', ''ROI'', ''Volume (mL)'', ''0cGy'', ''10cGy''],
              lines =
                [[Str ''P1'', Str ''PTV'', Num (617 / 50), Num 100, Num (3 / 25)],
                 [Str ''P1'', Str ''CORD'', Num 3, Num 100, Num 0]]\<rparr>
       \<and> lines f ! 1 ! 4 = Num 0"
proof -
  let ?d = "[(1::int, \<lparr>bincenters = [], counts = [], name = ''PTV'', volume = 12.345,
               relative_volume_counts = [100, 90, 80, 70, 60, 50, 40, 30, 20, 10, 0.125, 0]\<rparr>),
           (2, \<lparr>bincenters = [], counts = [], name = ''CORD'', volume = 3,
               relative_volume_counts = [99.999, 0]\<rparr>)]"
  have some: "?d = [] \<or> (\<exists>(roi, dvh) \<in> set ?d. relative_volume_counts dvh \<noteq> [])"
    by simp
  from dvh2csv_table
    [where dict_dvh = ?d and path = "''/tmp/''" and csv_name = "''dvh''" and patient_id = "''P1''"]
  have "?d = [] \<or> (\<exists>(roi, dvh) \<in> set ?d. relative_volume_counts dvh \<noteq> []) \<longrightarrow>
      (\<exists>f. dvh2csv ?d ''/tmp/'' ''dvh'' ''P1'' = Inr f)"
    by (elim conjE)
  then obtain f where f: "dvh2csv ?d ''/tmp/'' ''dvh'' ''P1'' = Inr f"
    using some by blast
  have "dvh2csv ?d ''/tmp/'' ''dvh'' ''P1''
      = Inr \<lparr>file_path = ''/tmp/dvh.csv'',
             header = [''Patient ID'', ''ROI'', ''Volume (mL)'', ''0cGy'', ''10cGy''],
             lines =
               [[Str ''P1'', Str ''PTV'', Num (617 / 50), Num 100, Num (3 / 25)],
                [Str ''P1'', Str ''CORD'', Num 3, Num 100, Num 0]]\<rparr>"
    by (simp add: dvh2csv_def range_step_def csv_header_of_def DataFrame_def
        round2_def fillna_def set_index_def to_csv_def drop_nth_def np_round2_def rint_def
        upt_2 Let_def)
  then show ?thesis using f by auto
qed

end
